theory Spec2Isabelle
  imports Complex_Main "HOL-Library.Word" "HOL-Library.Multiset"
begin

section \<open>JavaScript strings\<close>

text \<open>
  A JavaScript string is a sequence of UTF-16 code units. The regular expressions of
  the source carry no \<^verbatim>\<open>u\<close> flag, so they match code unit by code unit.
\<close>

type_synonym jschar = "16 word"
type_synonym jsstring = "jschar list"

text \<open>The code units of an ASCII literal.\<close>

definition js_str :: "string \<Rightarrow> jsstring" where
  "js_str s = map of_char s"

text \<open>The class \<^verbatim>\<open>\d\<close>: the ASCII digits only.\<close>

definition is_digit :: "jschar \<Rightarrow> bool" where
  "is_digit c = (0x30 \<le> c \<and> c \<le> 0x39)"

text \<open>
  The class \<^verbatim>\<open>\s\<close> of ECMAScript: tab, line feed, vertical tab, form feed,
  carriage return, space, no-break space, the Unicode space separators, the line and
  paragraph separators and the byte order mark.
\<close>

definition is_space :: "jschar \<Rightarrow> bool" where
  "is_space c =
     ((0x09 \<le> c \<and> c \<le> 0x0D) \<or> c = 0x20 \<or> c = 0xA0 \<or> c = 0x1680 \<or>
      (0x2000 \<le> c \<and> c \<le> 0x200A) \<or> c = 0x2028 \<or> c = 0x2029 \<or> c = 0x202F \<or>
      c = 0x205F \<or> c = 0x3000 \<or> c = 0xFEFF)"

text \<open>
  \<^verbatim>\<open>parseInt(ch, 10)\<close> of a one-character string: the digit's value, or NaN
  (\<open>None\<close>) when the character is no digit.
\<close>

definition parseInt10 :: "jschar \<Rightarrow> nat option" where
  "parseInt10 c = (if is_digit c then Some (unat c - 48) else None)"


section \<open>Card validation (lib/utils/card-validation)\<close>

text \<open>
  The loop of \<^verbatim>\<open>validateLuhn\<close>:
  \<^verbatim>\<open>for (let i = cardNumber.length - 1; i >= 0; i--) { ... }\<close>.
  The counter of the model is \<open>i + 1\<close>, so that the loop ends at 0. A NaN digit makes
  the sum NaN, and NaN stays NaN under every later addition: the model returns \<open>None\<close>
  at once. The variable \<^verbatim>\<open>sum\<close> of the source is \<open>sm\<close> here.
\<close>

fun luhn_loop :: "jsstring \<Rightarrow> nat \<Rightarrow> nat \<Rightarrow> bool \<Rightarrow> nat option" where
  "luhn_loop cardNumber 0 sm isEven = Some sm"
| "luhn_loop cardNumber (Suc i) sm isEven =
     (case parseInt10 (cardNumber ! i) of
        None \<Rightarrow> None
      | Some digit \<Rightarrow>
          (let digit' =
                 (if isEven
                  then (let doubled = digit * 2 in if doubled > 9 then doubled - 9 else doubled)
                  else digit)
           in luhn_loop cardNumber i (sm + digit') (\<not> isEven)))"

definition validateLuhn :: "jsstring \<Rightarrow> bool" where
  "validateLuhn cardNumber =
     (if \<not> (cardNumber \<noteq> [] \<and> list_all is_digit cardNumber) then False
      else if length cardNumber < 13 \<or> length cardNumber > 19 then False
      else (case luhn_loop cardNumber (length cardNumber) 0 False of
              None \<Rightarrow> False
            | Some sm \<Rightarrow> sm mod 10 = 0))"

text \<open>\<^verbatim>\<open>cardNumber.replace(/\s|-/g, "")\<close>\<close>

definition remove_spaces_and_dashes :: "jsstring \<Rightarrow> jsstring" where
  "remove_spaces_and_dashes cardNumber = filter (\<lambda>c. \<not> (is_space c \<or> c = 0x2D)) cardNumber"

text \<open>\<^verbatim>\<open>/^\d{13,19}$/.test(cleaned)\<close>\<close>

definition digits_13_19 :: "jsstring \<Rightarrow> bool" where
  "digits_13_19 s = (13 \<le> length s \<and> length s \<le> 19 \<and> list_all is_digit s)"

definition isValidCardNumber :: "jsstring \<Rightarrow> bool" where
  "isValidCardNumber cardNumber =
     (if cardNumber = [] then False
      else (let cleaned = remove_spaces_and_dashes cardNumber
            in if \<not> digits_13_19 cleaned then False else validateLuhn cleaned))"

subsection \<open>Stripping and digits as the specification words them\<close>

text \<open>Removing every space (U+0020) and every dash.\<close>

definition strip_spaces_dashes :: "jsstring \<Rightarrow> jsstring" where
  "strip_spaces_dashes s = filter (\<lambda>c. c \<noteq> 0x20 \<and> c \<noteq> 0x2D) s"

text \<open>
  The white space of ECMAScript, character by character: tab, line feed, vertical tab,
  form feed, carriage return, space, no-break space, ogham space mark, en quad to hair
  space, line separator, paragraph separator, narrow no-break space, medium mathematical
  space, ideographic space, byte order mark.
\<close>

definition white_space :: "jschar list" where
  "white_space =
     [0x09, 0x0A, 0x0B, 0x0C, 0x0D, 0x20, 0xA0, 0x1680,
      0x2000, 0x2001, 0x2002, 0x2003, 0x2004, 0x2005, 0x2006, 0x2007, 0x2008, 0x2009, 0x200A,
      0x2028, 0x2029, 0x202F, 0x205F, 0x3000, 0xFEFF]"

text \<open>Removing every white space character and every dash.\<close>

definition strip_white_space_dashes :: "jsstring \<Rightarrow> jsstring" where
  "strip_white_space_dashes s = filter (\<lambda>c. c \<notin> set (0x2D # white_space)) s"

text \<open>A string of decimal digits, and one of 13 to 19 of them.\<close>

definition only_digits :: "jsstring \<Rightarrow> bool" where
  "only_digits s = list_all (\<lambda>c. c \<in> set (js_str ''0123456789'')) s"

definition is_13_to_19_digits :: "jsstring \<Rightarrow> bool" where
  "is_13_to_19_digits s = (13 \<le> length s \<and> length s \<le> 19 \<and> only_digits s)"

subsection \<open>The Luhn checksum as the specification words it\<close>

text \<open>
  Digits are taken from the right, position 0 being the last digit. Every digit at an
  odd position is doubled, and 9 is subtracted from a doubled digit that exceeds 9.
\<close>

definition luhn_term :: "nat \<Rightarrow> nat \<Rightarrow> nat" where
  "luhn_term pos d = (if odd pos then (if 2 * d > 9 then 2 * d - 9 else 2 * d) else d)"

definition luhn_sum :: "jsstring \<Rightarrow> nat" where
  "luhn_sum ds = (\<Sum>pos < length ds. luhn_term pos (unat (rev ds ! pos) - 48))"

definition luhn_passes :: "jsstring \<Rightarrow> bool" where
  "luhn_passes ds = (luhn_sum ds mod 10 = 0)"


section \<open>Session expiry check (scripts/test-session-expiry, command check-status)\<close>

text \<open>
  A row of the sessions table. \<open>expires_at\<close> is the instant the stored ISO string
  denotes, in milliseconds since the epoch, as \<^verbatim>\<open>new Date(...).getTime()\<close> reads it.
\<close>

record session =
  token :: string
  user_id :: int
  expires_at :: int

definition bufferMs :: int where
  "bufferMs = 5 * 60 * 1000"

definition check_status_isValid :: "session \<Rightarrow> int \<Rightarrow> bool" where
  "check_status_isValid s now =
     (let expiresIn = expires_at s - now in expiresIn > bufferMs)"



section \<open>JavaScript numbers\<close>

text \<open>
  A JavaScript number is an IEEE-754 double: a finite value, one of the two infinities, or
  NaN. A finite double is kept as the rational it denotes; the two zeros are not told
  apart (they are equal under every comparison of the source).
\<close>

datatype jsnum = Fin rat | PosInfinity | NegInfinity | NaN

definition pow2 :: "int \<Rightarrow> rat" where
  "pow2 e = (if 0 \<le> e then 2 ^ nat e else 1 / 2 ^ nat (- e))"

text \<open>Rounding to the nearest integer, a tie going to the even neighbour.\<close>

definition round_half_even :: "rat \<Rightarrow> int" where
  "round_half_even r =
     (let f = \<lfloor>r\<rfloor>; d = r - of_int f
      in if d < 1 / 2 then f else if 1 / 2 < d then f + 1 else if even f then f else f + 1)"

text \<open>
  The exponent \<open>e\<close> of the unit in the last place of a magnitude \<open>a\<close>: doubles near \<open>a\<close>
  are the multiples of \<open>2 ^ e\<close>. It is the least \<open>e\<close> with \<open>a < 2 ^ (e + 53)\<close>, kept between
  \<open>- 1074\<close> (the subnormal numbers) and \<open>971\<close> (the largest binade). The search starts at
  \<open>- 52\<close>, the exponent for magnitudes from 1 up to 2, and walks up or down.
\<close>

function exponent_up :: "rat \<Rightarrow> int \<Rightarrow> int" where
  "exponent_up a e = (if e < 971 \<and> pow2 (e + 53) \<le> a then exponent_up a (e + 1) else e)"
  by pat_completeness auto
termination
  by (relation "measure (\<lambda>(a, e). nat (971 - e))") auto

function exponent_down :: "rat \<Rightarrow> int \<Rightarrow> int" where
  "exponent_down a e =
     (if - 1074 < e \<and> a < pow2 (e + 52) then exponent_down a (e - 1) else e)"
  by pat_completeness auto
termination
  by (relation "measure (\<lambda>(a, e). nat (e + 1074))") auto

definition ulp_exponent :: "rat \<Rightarrow> int" where
  "ulp_exponent a = (if a < 1 then exponent_down a (- 52) else exponent_up a (- 52))"

text \<open>
  The double nearest to a rational (round to nearest, ties to even), as the result of an
  arithmetic operation or the reading of a decimal literal gives it. A result of
  magnitude \<open>2 ^ 1024\<close> or more is an infinity.
\<close>

definition js_number :: "rat \<Rightarrow> jsnum" where
  "js_number q =
     (let e = ulp_exponent \<bar>q\<bar>;
          r = of_int (round_half_even (q / pow2 e)) * pow2 e
      in if pow2 1024 \<le> r then PosInfinity
         else if r \<le> - pow2 1024 then NegInfinity
         else Fin r)"

text \<open>The operator \<^verbatim>\<open>+\<close> on two numbers.\<close>

fun js_add :: "jsnum \<Rightarrow> jsnum \<Rightarrow> jsnum" where
  "js_add (Fin x) (Fin y) = js_number (x + y)"
| "js_add NaN _ = NaN"
| "js_add _ NaN = NaN"
| "js_add PosInfinity NegInfinity = NaN"
| "js_add NegInfinity PosInfinity = NaN"
| "js_add PosInfinity _ = PosInfinity"
| "js_add _ PosInfinity = PosInfinity"
| "js_add NegInfinity _ = NegInfinity"
| "js_add _ NegInfinity = NegInfinity"

text \<open>The comparison \<^verbatim>\<open>x > 0\<close>; it is false of NaN.\<close>

fun js_positive :: "jsnum \<Rightarrow> bool" where
  "js_positive (Fin x) = (0 < x)"
| "js_positive PosInfinity = True"
| "js_positive NegInfinity = False"
| "js_positive NaN = False"


section \<open>The store: accounts and transactions (lib/db)\<close>

text \<open>
  The two tables the account router reads and writes, as lists of rows in insertion
  order. Amounts and balances are JavaScript numbers. Instants (\<open>createdAt\<close>,
  \<open>processedAt\<close>) are integers, ordered as the stored timestamps are.
\<close>

record account =
  acc_id :: int
  userId :: int
  accountNumber :: string
  accountType :: string
  balance :: jsnum
  acc_status :: string

record transaction =
  tx_id :: int
  accountId :: int
  tx_type :: string
  amount :: jsnum
  description :: string
  tx_status :: string
  createdAt :: int
  processedAt :: int

record db =
  accounts :: "account list"
  transactions :: "transaction list"

text \<open>
  \<^verbatim>\<open>db.select().from(accounts).where(and(eq(accounts.id, accountId),
  eq(accounts.userId, ctx.user.id))).get()\<close>: the first matching row, or undefined.
\<close>

definition select_account_owned :: "db \<Rightarrow> int \<Rightarrow> int \<Rightarrow> account option" where
  "select_account_owned d aid uid =
     find (\<lambda>a. acc_id a = aid \<and> userId a = uid) (accounts d)"

text \<open>\<^verbatim>\<open>db.select().from(accounts).where(eq(accounts.id, accountId)).get()\<close>\<close>

definition select_account_by_id :: "db \<Rightarrow> int \<Rightarrow> account option" where
  "select_account_by_id d aid = find (\<lambda>a. acc_id a = aid) (accounts d)"

text \<open>
  Modelled from the spec: the table schema is not part of the source, so the values the
  store assigns at insert are taken from the data model of the specification. A new row
  gets a fresh \<open>tx_id\<close>, one above every id in the table, and \<open>createdAt\<close> is the instant
  of the insert.
\<close>

definition next_tx_id :: "transaction list \<Rightarrow> int" where
  "next_tx_id txs = foldr max (map tx_id txs) 0 + 1"

text \<open>
  \<^verbatim>\<open>db.insert(transactions).values({accountId, type: "deposit", amount,
  description: `Funding from ${type}`, status: "completed", processedAt: now})\<close>
\<close>

definition insert_transaction :: "db \<Rightarrow> int \<Rightarrow> jsnum \<Rightarrow> string \<Rightarrow> int \<Rightarrow> db" where
  "insert_transaction d aid amt descr now =
     d\<lparr>transactions := transactions d @
        [\<lparr>tx_id = next_tx_id (transactions d), accountId = aid, tx_type = ''deposit'',
          amount = amt, description = descr, tx_status = ''completed'',
          createdAt = now, processedAt = now\<rparr>]\<rparr>"

text \<open>
  \<^verbatim>\<open>.orderBy(desc(transactions.createdAt))\<close>: latest first. The source names no
  second sort key; the model keeps rows of equal \<open>createdAt\<close> in table order, and is a
  function of the rows alone, so that asking twice gives the same order.
\<close>

definition orderBy_createdAt_desc ::
  "('a transaction_scheme) list \<Rightarrow> ('a transaction_scheme) list" where
  "orderBy_createdAt_desc rows = sort_key (\<lambda>r. - createdAt r) rows"

text \<open>
  \<^verbatim>\<open>db.select().from(transactions).where(eq(transactions.accountId, accountId))
  .orderBy(desc(transactions.createdAt)).limit(1).get()\<close>
\<close>

definition select_latest_transaction :: "db \<Rightarrow> int \<Rightarrow> transaction option" where
  "select_latest_transaction d aid =
     (case orderBy_createdAt_desc (filter (\<lambda>t. accountId t = aid) (transactions d)) of
        [] \<Rightarrow> None
      | t # _ \<Rightarrow> Some t)"

text \<open>
  \<^verbatim>\<open>db.update(accounts).set({balance: v}).where(eq(accounts.id, accountId))\<close>: every
  row with that id gets the value the caller computed.
\<close>

definition update_balance :: "db \<Rightarrow> int \<Rightarrow> jsnum \<Rightarrow> db" where
  "update_balance d aid v =
     d\<lparr>accounts := map (\<lambda>a. if acc_id a = aid then a\<lparr>balance := v\<rparr> else a) (accounts d)\<rparr>"


section \<open>Funding an account (server/routers/account, fundAccount)\<close>

datatype funding_type = Card | Bank

record fundingSource =
  fs_type :: funding_type
  fs_accountNumber :: jsstring
  routingNumber :: "jsstring option"

record fund_input =
  in_accountId :: int
  in_amount :: jsnum
  fundingSource :: fundingSource

text \<open>
  The errors of the procedure. \<open>InvalidInput\<close> is tRPC's \<^verbatim>\<open>BAD_REQUEST\<close> for an input
  the zod schema refuses or a card number that fails validation; \<open>NotFound\<close> is
  \<^verbatim>\<open>NOT_FOUND\<close> ("Account not found"); \<open>InvalidState\<close> is \<^verbatim>\<open>BAD_REQUEST\<close> with the
  message "Account is not active".
\<close>

datatype error = InvalidInput | NotFound | InvalidState

record fund_result =
  r_transaction :: "transaction option"
  newBalance :: jsnum

text \<open>
  The zod schema of the input, on a value that already has the shape of the object:
  \<^verbatim>\<open>amount: z.number().positive()\<close> (a number that is not NaN and is greater than 0), and
  the refinement of \<^verbatim>\<open>fundingSource\<close>:
  \<^verbatim>\<open>source.type !== "bank" || (typeof source.routingNumber === "string" &&
  /^\d{9}$/.test(source.routingNumber))\<close>.
\<close>

definition routing_9_digits :: "jsstring \<Rightarrow> bool" where
  "routing_9_digits r = (length r = 9 \<and> list_all is_digit r)"

definition fundAccount_input_ok :: "fund_input \<Rightarrow> bool" where
  "fundAccount_input_ok input =
     (js_positive (in_amount input) \<and>
      (fs_type (fundingSource input) \<noteq> Bank \<or>
       (case routingNumber (fundingSource input) of
          None \<Rightarrow> False
        | Some r \<Rightarrow> routing_9_digits r)))"

definition funding_description :: "funding_type \<Rightarrow> string" where
  "funding_description ty =
     ''Funding from '' @ (case ty of Card \<Rightarrow> ''card'' | Bank \<Rightarrow> ''bank'')"

text \<open>
  The mutation, run alone from start to end. It returns its result or error together
  with the store it leaves behind. \<open>ctx_user_id\<close> is \<^verbatim>\<open>ctx.user.id\<close>, \<open>now\<close> the instant
  of the call. \<^verbatim>\<open>parseFloat(input.amount.toString())\<close> is the amount itself.
\<close>

definition fundAccount ::
  "db \<Rightarrow> int \<Rightarrow> int \<Rightarrow> fund_input \<Rightarrow> (error + fund_result) \<times> db" where
  "fundAccount d ctx_user_id now input =
     (if \<not> fundAccount_input_ok input then (Inl InvalidInput, d)
      else if fs_type (fundingSource input) = Card \<and>
              \<not> isValidCardNumber (fs_accountNumber (fundingSource input))
      then (Inl InvalidInput, d)
      else
        (case select_account_owned d (in_accountId input) ctx_user_id of
           None \<Rightarrow> (Inl NotFound, d)
         | Some account \<Rightarrow>
             if acc_status account \<noteq> ''active'' then (Inl InvalidState, d)
             else
               (let d1 = insert_transaction d (in_accountId input) (in_amount input)
                           (funding_description (fs_type (fundingSource input))) now;
                    transaction = select_latest_transaction d1 (in_accountId input);
                    d2 = update_balance d1 (in_accountId input)
                           (js_add (balance account) (in_amount input));
                    updatedAccount = select_account_by_id d2 (in_accountId input)
                in (Inr \<lparr>r_transaction = transaction,
                          newBalance =
                            (case updatedAccount of
                               Some u \<Rightarrow> balance u
                             | None \<Rightarrow> js_add (balance account) (in_amount input))\<rparr>,
                    d2))))"

text \<open>Calls one after another, each on the store the one before left.\<close>

record fund_call =
  call_user :: int
  call_now :: int
  call_input :: fund_input

fun fund_sequence :: "db \<Rightarrow> fund_call list \<Rightarrow> db" where
  "fund_sequence d [] = d"
| "fund_sequence d (c # cs) =
     fund_sequence (snd (fundAccount d (call_user c) (call_now c) (call_input c))) cs"

subsection \<open>The mutation as its storage operations\<close>

text \<open>
  Every \<^verbatim>\<open>await\<close> of the mutation is one operation on the store, and another call may
  run between two of them. \<open>fund_pc\<close> is the point a call has reached, with the local
  variables it holds there: the \<open>account\<close> row read at the start and the \<open>transaction\<close>
  row fetched after the insert.
\<close>

datatype fund_pc =
    AtSelectAccount
  | AtInsert account
  | AtSelectTransaction account
  | AtUpdate account "transaction option"
  | AtRefetch account "transaction option"
  | Finished "error + fund_result"

text \<open>The code before the first \<^verbatim>\<open>await\<close>: the input schema and the card check.\<close>

definition fund_start :: "fund_input \<Rightarrow> fund_pc" where
  "fund_start input =
     (if \<not> fundAccount_input_ok input then Finished (Inl InvalidInput)
      else if fs_type (fundingSource input) = Card \<and>
              \<not> isValidCardNumber (fs_accountNumber (fundingSource input))
      then Finished (Inl InvalidInput)
      else AtSelectAccount)"

fun fund_step :: "int \<Rightarrow> int \<Rightarrow> fund_input \<Rightarrow> fund_pc \<Rightarrow> db \<Rightarrow> fund_pc \<times> db" where
  "fund_step ctx_user_id now input AtSelectAccount d =
     (case select_account_owned d (in_accountId input) ctx_user_id of
        None \<Rightarrow> (Finished (Inl NotFound), d)
      | Some account \<Rightarrow>
          if acc_status account \<noteq> ''active'' then (Finished (Inl InvalidState), d)
          else (AtInsert account, d))"
| "fund_step ctx_user_id now input (AtInsert account) d =
     (AtSelectTransaction account,
      insert_transaction d (in_accountId input) (in_amount input)
        (funding_description (fs_type (fundingSource input))) now)"
| "fund_step ctx_user_id now input (AtSelectTransaction account) d =
     (AtUpdate account (select_latest_transaction d (in_accountId input)), d)"
| "fund_step ctx_user_id now input (AtUpdate account transaction) d =
     (AtRefetch account transaction,
      update_balance d (in_accountId input) (js_add (balance account) (in_amount input)))"
| "fund_step ctx_user_id now input (AtRefetch account transaction) d =
     (Finished
        (Inr \<lparr>r_transaction = transaction,
              newBalance =
                (case select_account_by_id d (in_accountId input) of
                   Some u \<Rightarrow> balance u
                 | None \<Rightarrow> js_add (balance account) (in_amount input))\<rparr>),
      d)"
| "fund_step ctx_user_id now input (Finished r) d = (Finished r, d)"

text \<open>
  Several calls in flight on one store. A schedule names, step by step, the call that
  performs its next storage operation.
\<close>

fun run_schedule ::
  "fund_call list \<Rightarrow> nat list \<Rightarrow> fund_pc list \<times> db \<Rightarrow> fund_pc list \<times> db" where
  "run_schedule calls [] st = st"
| "run_schedule calls (i # sched) (pcs, d) =
     (if i < length calls \<and> i < length pcs
      then (let c = calls ! i;
                (pc', d') = fund_step (call_user c) (call_now c) (call_input c) (pcs ! i) d
            in run_schedule calls sched (pcs[i := pc'], d'))
      else run_schedule calls sched (pcs, d))"

definition run_concurrent :: "db \<Rightarrow> fund_call list \<Rightarrow> nat list \<Rightarrow> fund_pc list \<times> db" where
  "run_concurrent d calls sched =
     run_schedule calls sched (map (\<lambda>c. fund_start (call_input c)) calls, d)"

text \<open>
  A call has finished; it has finished with a result; it has performed its insert.
\<close>

fun finished :: "fund_pc \<Rightarrow> bool" where
  "finished (Finished r) = True"
| "finished pc = False"

fun succeeded :: "fund_pc \<Rightarrow> bool" where
  "succeeded (Finished (Inr r)) = True"
| "succeeded pc = False"

fun inserted :: "fund_pc \<Rightarrow> bool" where
  "inserted AtSelectAccount = False"
| "inserted (AtInsert account) = False"
| "inserted (Finished (Inl e)) = False"
| "inserted pc = True"

subsection \<open>What the specification asks of the store and of an amount\<close>

text \<open>
  The sum of \<open>amount\<close> over the completed transactions of an account: the amounts added
  in journal order, from 0, with the addition of JavaScript numbers.
\<close>

definition completed_total :: "db \<Rightarrow> int \<Rightarrow> jsnum" where
  "completed_total d aid =
     foldl js_add (Fin 0)
       (map amount
          (filter (\<lambda>t. accountId t = aid \<and> tx_status t = ''completed'') (transactions d)))"

definition balance_consistent :: "db \<Rightarrow> bool" where
  "balance_consistent d =
     list_all (\<lambda>a. balance a = completed_total d (acc_id a)) (accounts d)"

text \<open>The journal rows of an account.\<close>

definition journal_rows :: "db \<Rightarrow> int \<Rightarrow> transaction list" where
  "journal_rows d aid = filter (\<lambda>t. accountId t = aid) (transactions d)"

text \<open>A call that funds account \<open>aid\<close> for user \<open>u\<close> by \<open>A\<close> and passes the input checks.\<close>

definition funds :: "int \<Rightarrow> int \<Rightarrow> jsnum \<Rightarrow> fund_call \<Rightarrow> bool" where
  "funds u aid A c =
     (call_user c = u \<and> in_accountId (call_input c) = aid \<and> in_amount (call_input c) = A \<and>
      fund_start (call_input c) = AtSelectAccount)"

text \<open>
  The invariant of a run in which every call funds the account \<open>aid\<close> of user \<open>u\<close> and has
  passed the input checks: the account stays there and active, no call has failed, and
  the journal of the account has grown by one row for every call that has performed its
  insert.
\<close>

definition in_flight :: "int \<Rightarrow> int \<Rightarrow> nat \<Rightarrow> nat \<Rightarrow> fund_pc list \<times> db \<Rightarrow> bool" where
  "in_flight u aid n r0 st =
     (case st of (pcs, d) \<Rightarrow>
        length pcs = n \<and>
        (\<exists>a. select_account_owned d aid u = Some a \<and> acc_status a = ''active'') \<and>
        list_all (\<lambda>pc. finished pc \<longrightarrow> succeeded pc) pcs \<and>
        length (journal_rows d aid) = r0 + length (filter inserted pcs))"

text \<open>
  The decimal amount the specification admits: positive, at most two fractional digits,
  and within the ceiling of 10,000. The procedure receives the double nearest to the
  decimal the caller wrote.
\<close>

definition at_most_2_fractional_digits :: "rat \<Rightarrow> bool" where
  "at_most_2_fractional_digits a = (of_int \<lfloor>a * 100\<rfloor> = a * 100)"

definition spec_amount_ok :: "rat \<Rightarrow> bool" where
  "spec_amount_ok a = (0 < a \<and> at_most_2_fractional_digits a \<and> a \<le> 10000)"


section \<open>Transaction history (server/routers/account, getTransactions)\<close>

text \<open>
  A returned row: the columns of the transaction and the \<open>accountType\<close> of its account.
  \<open>None\<close> is JavaScript's undefined, which the earlier implementation writes when its
  lookup finds no account.
\<close>

record enriched_transaction = transaction +
  e_accountType :: "string option"

definition enrich :: "transaction \<Rightarrow> string option \<Rightarrow> enriched_transaction" where
  "enrich t ty = transaction.extend t (enriched_transaction.fields ty)"

record getTransactions_input =
  q_accountId :: int
  limit :: "int option"
  offset :: "int option"

text \<open>
  The zod schema: \<^verbatim>\<open>limit: z.number().min(1).max(100).default(50).optional()\<close>,
  \<^verbatim>\<open>offset: z.number().min(0).default(0).optional()\<close>.
\<close>

definition getTransactions_input_ok :: "getTransactions_input \<Rightarrow> bool" where
  "getTransactions_input_ok input =
     ((case limit input of None \<Rightarrow> True | Some l \<Rightarrow> 1 \<le> l \<and> l \<le> 100) \<and>
      (case offset input of None \<Rightarrow> True | Some off \<Rightarrow> 0 \<le> off))"

text \<open>
  \<^verbatim>\<open>.from(transactions).innerJoin(accounts, eq(transactions.accountId, accounts.id))\<close>:
  one row for every pair of a transaction and an account with matching id.
\<close>

definition innerJoin_accounts :: "db \<Rightarrow> enriched_transaction list" where
  "innerJoin_accounts d =
     concat (map (\<lambda>t. map (\<lambda>a. enrich t (Some (accountType a)))
                         (filter (\<lambda>a. accountId t = acc_id a) (accounts d)))
                 (transactions d))"

text \<open>The joined query without its \<^verbatim>\<open>.limit(limit).offset(offset)\<close>.\<close>

definition joined_history :: "db \<Rightarrow> int \<Rightarrow> enriched_transaction list" where
  "joined_history d aid =
     orderBy_createdAt_desc (filter (\<lambda>r. accountId r = aid) (innerJoin_accounts d))"

definition getTransactions ::
  "db \<Rightarrow> int \<Rightarrow> getTransactions_input \<Rightarrow> error + enriched_transaction list" where
  "getTransactions d ctx_user_id input =
     (if \<not> getTransactions_input_ok input then Inl InvalidInput
      else
        (case select_account_owned d (q_accountId input) ctx_user_id of
           None \<Rightarrow> Inl NotFound
         | Some account \<Rightarrow>
             (let limit' = (case limit input of None \<Rightarrow> 50 | Some l \<Rightarrow> l);
                  offset' = (case offset input of None \<Rightarrow> 0 | Some off \<Rightarrow> off)
              in Inr (take (nat limit') (drop (nat offset') (joined_history d (q_accountId input)))))))"

text \<open>
  The earlier implementation: all transactions of the account, latest first, and one
  lookup of the account for every row.
\<close>

definition getTransactions_per_row ::
  "db \<Rightarrow> int \<Rightarrow> int \<Rightarrow> error + enriched_transaction list" where
  "getTransactions_per_row d ctx_user_id aid =
     (case select_account_owned d aid ctx_user_id of
        None \<Rightarrow> Inl NotFound
      | Some account \<Rightarrow>
          (let accountTransactions =
                 orderBy_createdAt_desc (filter (\<lambda>t. accountId t = aid) (transactions d))
           in Inr (map (\<lambda>transaction.
                          enrich transaction
                            (map_option accountType
                               (select_account_by_id d (accountId transaction))))
                       accountTransactions)))"

text \<open>The earlier result cut down to a page.\<close>

definition page_of :: "int \<Rightarrow> int \<Rightarrow> 'a list \<Rightarrow> 'a list" where
  "page_of l off rows = take (nat l) (drop (nat off) rows)"

text \<open>The account ids are a key of the accounts table.\<close>

definition account_ids_unique :: "db \<Rightarrow> bool" where
  "account_ids_unique d = distinct (map acc_id (accounts d))"


subsection \<open>Reading the whole history page by page\<close>

text \<open>
  The client loop of the specification: ask for the pages \<open>(l, off)\<close>, \<open>(l, off + l)\<close>,
  \<open>(l, off + 2 * l)\<close>, and so on, and concatenate them until a page comes back with
  fewer than \<open>l\<close> rows. An error of a request ends the loop with that error.
\<close>

function collect_pages ::
  "db \<Rightarrow> int \<Rightarrow> int \<Rightarrow> int \<Rightarrow> int \<Rightarrow> error + enriched_transaction list" where
  "collect_pages d ctx_user_id aid l off =
     (case getTransactions d ctx_user_id \<lparr>q_accountId = aid, limit = Some l, offset = Some off\<rparr> of
        Inl e \<Rightarrow> Inl e
      | Inr page \<Rightarrow>
          if int (length page) < l then Inr page
          else (case collect_pages d ctx_user_id aid l (off + l) of
                  Inl e \<Rightarrow> Inl e
                | Inr rest \<Rightarrow> Inr (page @ rest)))"
  by pat_completeness auto
termination
proof (relation "measure (\<lambda>(d, u, aid, l, off). length (joined_history d aid) - nat off)")
  show "wf (measure (\<lambda>(d, u, aid, l, off). length (joined_history d aid) - nat off))"
    by simp
next
  fix d :: db and ctx_user_id aid l off :: int and page :: "enriched_transaction list"
  assume g: "getTransactions d ctx_user_id \<lparr>q_accountId = aid, limit = Some l, offset = Some off\<rparr> = Inr page"
    and full: "\<not> int (length page) < l"
  from g have l: "1 \<le> l" and off: "0 \<le> off"
    and page: "page = take (nat l) (drop (nat off) (joined_history d aid))"
    by (auto simp: getTransactions_def getTransactions_input_ok_def Let_def
        split: if_splits option.splits)
  from full page l have "nat l \<le> length (joined_history d aid) - nat off"
    by (simp add: min_def split: if_splits)
  with l off have "length (joined_history d aid) - nat (off + l) <
                   length (joined_history d aid) - nat off"
    by (simp add: nat_add_distrib)
  then show "((d, ctx_user_id, aid, l, off + l), (d, ctx_user_id, aid, l, off))
       \<in> measure (\<lambda>(d, u, aid, l, off). length (joined_history d aid) - nat off)"
    by simp
qed


section \<open>Example stores and calls\<close>

text \<open>A store with one active account without history, and a closed one.\<close>

definition example_db :: db where
  "example_db =
     \<lparr>accounts =
        [\<lparr>acc_id = 1, userId = 7, accountNumber = ''0123456789'', accountType = ''checking'',
          balance = Fin 0, acc_status = ''active''\<rparr>,
         \<lparr>acc_id = 2, userId = 7, accountNumber = ''9876543210'', accountType = ''savings'',
          balance = Fin 0, acc_status = ''closed''\<rparr>],
      transactions = []\<rparr>"

definition example_card_input :: "jsnum \<Rightarrow> fund_input" where
  "example_card_input amt =
     \<lparr>in_accountId = 1, in_amount = amt,
      fundingSource = \<lparr>fs_type = Card, fs_accountNumber = js_str ''4242424242424242'',
                        routingNumber = None\<rparr>\<rparr>"

definition example_call :: "int \<Rightarrow> jsnum \<Rightarrow> fund_call" where
  "example_call now amt = \<lparr>call_user = 7, call_now = now, call_input = example_card_input amt\<rparr>"

text \<open>
  A store with history: account 1 has three transactions, two of them with the same
  \<open>createdAt\<close>, and account 2 belongs to another user.
\<close>

definition example_history_db :: db where
  "example_history_db =
     \<lparr>accounts =
        [\<lparr>acc_id = 1, userId = 7, accountNumber = ''0123456789'', accountType = ''checking'',
          balance = Fin 45, acc_status = ''active''\<rparr>,
         \<lparr>acc_id = 2, userId = 8, accountNumber = ''9876543210'', accountType = ''savings'',
          balance = Fin 7, acc_status = ''active''\<rparr>],
      transactions =
        [\<lparr>tx_id = 1, accountId = 1, tx_type = ''deposit'', amount = Fin 10,
          description = ''Funding from card'', tx_status = ''completed'', createdAt = 1000,
          processedAt = 1000\<rparr>,
         \<lparr>tx_id = 2, accountId = 1, tx_type = ''deposit'', amount = Fin 15,
          description = ''Funding from bank'', tx_status = ''completed'', createdAt = 1000,
          processedAt = 1000\<rparr>,
         \<lparr>tx_id = 3, accountId = 2, tx_type = ''deposit'', amount = Fin 7,
          description = ''Funding from card'', tx_status = ''completed'', createdAt = 1500,
          processedAt = 1500\<rparr>,
         \<lparr>tx_id = 4, accountId = 1, tx_type = ''deposit'', amount = Fin 20,
          description = ''Funding from card'', tx_status = ''completed'', createdAt = 2000,
          processedAt = 2000\<rparr>]\<rparr>"


section \<open>Verification: card validation\<close>

text \<open>One iteration of the loop on a digit, with the doubling written as \<open>luhn_term\<close>.\<close>

lemma luhn_loop_step:
  "is_digit (ds ! k) \<Longrightarrow>
   luhn_loop ds (Suc k) acc e =
     luhn_loop ds k (acc + luhn_term (if e then 1 else 0) (unat (ds ! k) - 48)) (\<not> e)"
  by (simp add: parseInt10_def Let_def luhn_term_def mult.commute)

lemma luhn_term_parity: "luhn_term (if odd p then 1 else 0) d = luhn_term p d"
  by (simp add: luhn_term_def)

text \<open>
  Loop invariant: with \<open>k\<close> characters left, the flag \<open>isEven\<close> is the parity of the
  number of characters consumed, and the rest of the loop adds the terms of the
  positions \<open>length ds - k\<close> and up, counted from the right.
\<close>

lemma luhn_loop_sum:
  "k \<le> length ds \<Longrightarrow> list_all is_digit ds \<Longrightarrow>
   luhn_loop ds k acc (odd (length ds - k)) =
     Some (acc + (\<Sum>pos \<in> {length ds - k ..< length ds}.
                    luhn_term pos (unat (rev ds ! pos) - 48)))"
proof (induction k arbitrary: acc)
  case 0
  then show ?case by simp
next
  case (Suc k)
  let ?n = "length ds"
  let ?g = "\<lambda>pos. luhn_term pos (unat (rev ds ! pos) - 48)"
  from Suc.prems have k: "k < ?n" by simp
  then have dig: "is_digit (ds ! k)" using Suc.prems(2) by (simp add: list_all_length)
  have par: "(\<not> odd (?n - Suc k)) = odd (?n - k)" using k
    by (simp add: Suc_diff_Suc)
  have revk: "rev ds ! (?n - Suc k) = ds ! k" using k
    by (simp add: rev_nth Suc_diff_Suc)
  have split: "{?n - Suc k ..< ?n} = insert (?n - Suc k) {?n - k ..< ?n}"
    using k by auto
  have sumsplit: "sum ?g {?n - Suc k ..< ?n} = ?g (?n - Suc k) + sum ?g {?n - k ..< ?n}"
    unfolding split using k by (subst sum.insert) auto
  have "luhn_loop ds (Suc k) acc (odd (?n - Suc k)) =
        luhn_loop ds k (acc + ?g (?n - Suc k)) (odd (?n - k))"
    using luhn_loop_step[OF dig, of acc "odd (?n - Suc k)"]
    by (simp only: luhn_term_parity par revk)
  also have "\<dots> = Some (acc + ?g (?n - Suc k) + sum ?g {?n - k ..< ?n})"
    using Suc.IH[of "acc + ?g (?n - Suc k)"] Suc.prems by simp
  finally show ?case by (simp only: sumsplit add.assoc)
qed

lemma luhn_loop_luhn_sum:
  "list_all is_digit ds \<Longrightarrow> luhn_loop ds (length ds) 0 False = Some (luhn_sum ds)"
  using luhn_loop_sum[of "length ds" ds 0] by (simp add: luhn_sum_def lessThan_atLeast0)

lemma isValidCardNumber_char:
  "isValidCardNumber raw =
     (let cleaned = remove_spaces_and_dashes raw
      in digits_13_19 cleaned \<and> luhn_passes cleaned)"
proof (cases "raw = []")
  case True
  then show ?thesis
    by (simp add: isValidCardNumber_def remove_spaces_and_dashes_def digits_13_19_def)
next
  case False
  then show ?thesis
    by (auto simp: isValidCardNumber_def Let_def digits_13_19_def validateLuhn_def
        luhn_loop_luhn_sum luhn_passes_def)
qed

lemma remove_spaces_and_dashes_prestripped:
  "remove_spaces_and_dashes (filter (\<lambda>c. c \<noteq> 0x20 \<and> c \<noteq> 0x2D) s) =
   remove_spaces_and_dashes s"
  by (auto simp: remove_spaces_and_dashes_def is_space_def intro!: filter_cong)


text \<open>The character classes of the source and the lists of the specification agree.\<close>

lemma is_digit_set: "is_digit c = (c \<in> set (js_str ''0123456789''))"
proof -
  have "is_digit c = (48 \<le> unat c \<and> unat c \<le> 57)"
    by (simp add: is_digit_def word_le_nat_alt)
  also have "\<dots> = (unat c \<in> {48, 49, 50, 51, 52, 53, 54, 55, 56, 57})"
    by (simp only: insert_iff empty_iff) arith
  also have "\<dots> = (c \<in> set (js_str ''0123456789''))"
    by (simp add: js_str_def word_unat_eq_iff)
  finally show ?thesis .
qed

lemma is_space_set: "(is_space c \<or> c = 0x2D) = (c \<in> set (0x2D # white_space))"
proof -
  have "(is_space c \<or> c = 0x2D) =
        ((9 \<le> unat c \<and> unat c \<le> 13) \<or> unat c = 32 \<or> unat c = 160 \<or> unat c = 5760 \<or>
         (8192 \<le> unat c \<and> unat c \<le> 8202) \<or> unat c = 8232 \<or> unat c = 8233 \<or>
         unat c = 8239 \<or> unat c = 8287 \<or> unat c = 12288 \<or> unat c = 65279 \<or> unat c = 45)"
    by (simp add: is_space_def word_le_nat_alt word_unat_eq_iff)
  also have "\<dots> = (unat c \<in> {45, 9, 10, 11, 12, 13, 32, 160, 5760,
        8192, 8193, 8194, 8195, 8196, 8197, 8198, 8199, 8200, 8201, 8202,
        8232, 8233, 8239, 8287, 12288, 65279})"
    by (simp only: insert_iff empty_iff) arith
  also have "\<dots> = (c \<in> set (0x2D # white_space))"
    by (simp add: white_space_def word_unat_eq_iff)
  finally show ?thesis .
qed

lemma remove_spaces_and_dashes_strip:
  "remove_spaces_and_dashes s = strip_white_space_dashes s"
  unfolding remove_spaces_and_dashes_def strip_white_space_dashes_def
  by (rule filter_cong) (simp_all only: is_space_set)

lemma digits_13_19_spec: "digits_13_19 s = is_13_to_19_digits s"
  by (simp add: digits_13_19_def is_13_to_19_digits_def only_digits_def is_digit_set[abs_def])

lemma strip_spaces_dashes_then_clean:
  "remove_spaces_and_dashes (strip_spaces_dashes s) = remove_spaces_and_dashes s"
  using remove_spaces_and_dashes_prestripped[of s] by (simp add: strip_spaces_dashes_def)

lemma card_4242_valid: "isValidCardNumber (js_str ''4242424242424242'')"
  by code_simp

lemma card_4242_line_feed_valid: "isValidCardNumber (js_str ''4242424242424242'' @ [0x0A])"
  by code_simp

text \<open>
  Claim C7, as the specification states it, fails: the function strips more than spaces
  and dashes. The sixteen digits 4242424242424242 followed by a line feed are accepted,
  although the string with its spaces and dashes removed is not 13 to 19 digits.
\<close>

theorem isValidCardNumber_strips_line_feed:
  "isValidCardNumber (js_str ''4242424242424242'' @ [0x0A])
   \<and> \<not> is_13_to_19_digits (strip_spaces_dashes (js_str ''4242424242424242'' @ [0x0A]))"
proof -
  have "\<not> only_digits (strip_spaces_dashes (js_str ''4242424242424242'' @ [0x0A]))"
    by (simp add: only_digits_def strip_spaces_dashes_def js_str_def)
  then show ?thesis using card_4242_line_feed_valid by (simp add: is_13_to_19_digits_def)
qed

text \<open>
  Claim C7, amended. \<open>isValidCardNumber\<close> strips every white space character and every
  dash, answers false unless 13 to 19 digits remain, and otherwise answers true exactly
  when the Luhn checksum of the remaining digits (from the right, every second digit
  doubled, 9 subtracted from a doubled digit above 9) is divisible by 10. It accepts
  4242424242424242, also written with spaces and dashes, and rejects 4242424242424241
  and 123.
\<close>

theorem isValidCardNumber_luhn:
  "isValidCardNumber raw =
     (let cleaned = strip_white_space_dashes raw
      in is_13_to_19_digits cleaned \<and> luhn_passes cleaned)
   \<and> isValidCardNumber (js_str ''4242424242424242'')
   \<and> \<not> isValidCardNumber (js_str ''4242424242424241'')
   \<and> \<not> isValidCardNumber (js_str ''123'')
   \<and> isValidCardNumber (js_str ''4242 4242-4242 4242'')"
proof -
  have "\<not> isValidCardNumber (js_str ''4242424242424241'')" by code_simp
  moreover have "\<not> isValidCardNumber (js_str ''123'')" by code_simp
  moreover have "isValidCardNumber (js_str ''4242 4242-4242 4242'')" by code_simp
  moreover have "isValidCardNumber raw =
     (let cleaned = strip_white_space_dashes raw
      in is_13_to_19_digits cleaned \<and> luhn_passes cleaned)"
    by (simp add: isValidCardNumber_char remove_spaces_and_dashes_strip digits_13_19_spec)
  ultimately show ?thesis using card_4242_valid by blast
qed

text \<open>
  Claim C10, as the specification states it, fails in its last part: the sixteen digits
  4242424242424242 followed by a line feed keep a character that is no digit when spaces
  and dashes are removed, and are accepted all the same.
\<close>

theorem isValidCardNumber_accepts_line_feed:
  "\<not> only_digits (strip_spaces_dashes (js_str ''4242424242424242'' @ [0x0A]))
   \<and> isValidCardNumber (js_str ''4242424242424242'' @ [0x0A])"
proof -
  have "\<not> only_digits (strip_spaces_dashes (js_str ''4242424242424242'' @ [0x0A]))"
    by (simp add: only_digits_def strip_spaces_dashes_def js_str_def)
  then show ?thesis using card_4242_line_feed_valid by simp
qed

text \<open>
  Claim C10, amended. Removing every space and every dash from the input beforehand does
  not change the answer of \<open>isValidCardNumber\<close>; the empty string is rejected; and an
  input that still holds a character that is no digit after every white space character
  and every dash is removed is rejected.
\<close>

theorem isValidCardNumber_formatting:
  "isValidCardNumber s = isValidCardNumber (strip_spaces_dashes s)
   \<and> \<not> isValidCardNumber []
   \<and> (\<not> only_digits (strip_white_space_dashes s) \<longrightarrow> \<not> isValidCardNumber s)"
proof -
  have "isValidCardNumber s = isValidCardNumber (strip_spaces_dashes s)"
    by (simp add: isValidCardNumber_char strip_spaces_dashes_then_clean)
  moreover have "\<not> isValidCardNumber []"
    by (simp add: isValidCardNumber_def)
  moreover have "\<not> only_digits (strip_white_space_dashes s) \<longrightarrow> \<not> isValidCardNumber s"
    by (simp add: isValidCardNumber_char remove_spaces_and_dashes_strip digits_13_19_spec
        is_13_to_19_digits_def)
  ultimately show ?thesis by blast
qed

theorem isValidCardNumber_formatting_witness:
  "\<not> only_digits (strip_white_space_dashes (js_str ''4242-4242 4242 424x''))
   \<and> \<not> isValidCardNumber (js_str ''4242-4242 4242 424x'')
   \<and> isValidCardNumber (js_str ''4242-4242 4242 4242'')"
proof -
  have h: "\<not> only_digits (strip_white_space_dashes (js_str ''4242-4242 4242 424x''))"
    by (simp add: only_digits_def strip_white_space_dashes_def white_space_def js_str_def)
  have f: "strip_spaces_dashes (js_str ''4242-4242 4242 4242'') = js_str ''4242424242424242''"
    by (simp add: strip_spaces_dashes_def js_str_def)
  from isValidCardNumber_formatting[of "js_str ''4242-4242 4242 424x''"] h
  have "\<not> isValidCardNumber (js_str ''4242-4242 4242 424x'')" by blast
  moreover from isValidCardNumber_formatting[of "js_str ''4242-4242 4242 4242''"] f
    card_4242_valid
  have "isValidCardNumber (js_str ''4242-4242 4242 4242'')" by simp
  ultimately show ?thesis using h by blast
qed


section \<open>Verification: session expiry\<close>

text \<open>
  Claim C4. With \<open>remaining = expires_at - now\<close> and a buffer of five minutes, the
  check answers valid exactly when \<open>remaining\<close> is strictly greater than the buffer: a
  session with exactly five minutes left is invalid, one with five minutes and a second
  left is valid, and a session that has expired is invalid.
\<close>

theorem check_status_buffer_boundary:
  "check_status_isValid s now = (expires_at s - now > bufferMs)
   \<and> bufferMs = 5 * 60 * 1000
   \<and> \<not> check_status_isValid (s\<lparr>expires_at := now + 5 * 60 * 1000\<rparr>) now
   \<and> check_status_isValid (s\<lparr>expires_at := now + 5 * 60 * 1000 + 1000\<rparr>) now
   \<and> (expires_at s - now \<le> 0 \<longrightarrow> \<not> check_status_isValid s now)"
  by (simp add: check_status_isValid_def bufferMs_def)

theorem check_status_buffer_boundary_witness:
  "expires_at \<lparr>token = ''abc'', user_id = 1, expires_at = 1000\<rparr> - 2000 \<le> 0
   \<and> \<not> check_status_isValid \<lparr>token = ''abc'', user_id = 1, expires_at = 1000\<rparr> 2000"
  using check_status_buffer_boundary[of "\<lparr>token = ''abc'', user_id = 1, expires_at = 1000\<rparr>" 2000]
  by simp



section \<open>Verification: JavaScript numbers\<close>

text \<open>The floor of a quotient of numerals, for evaluation.\<close>

lemma floor_rat_numeral_div:
  "\<lfloor>numeral a / numeral b :: rat\<rfloor> = numeral a div numeral b"
  using floor_divide_of_int_eq[of "numeral a" "numeral b", where ?'a = rat] by simp

lemma floor_rat_neg_numeral_div:
  "\<lfloor>- (numeral a / numeral b) :: rat\<rfloor> = - numeral a div numeral b"
  using floor_divide_of_int_eq[of "- numeral a" "numeral b", where ?'a = rat] by simp

lemmas js_eval = floor_rat_numeral_div floor_rat_neg_numeral_div js_number_def
  ulp_exponent_def pow2_def round_half_even_def Let_def

text \<open>
  The model agrees with the arithmetic of doubles on well-known cases: 0.1 is the double
  3602879701896397 / 2 ^ 55; 0.1 + 0.2 is 0.30000000000000004, which is not the double
  0.3; 2 ^ 53 + 1 is 2 ^ 53 and 2 ^ 53 + 3 is 2 ^ 53 + 4 (ties go to the even neighbour);
  10.5 + 10.5 is 21.
\<close>

lemma js_number_tenth: "js_number (1 / 10) = Fin (3602879701896397 / 36028797018963968)"
  by (simp add: js_eval)

lemma js_number_fifth: "js_number (1 / 5) = Fin (3602879701896397 / 18014398509481984)"
  by (simp add: js_eval)

lemma js_number_three_tenths:
  "js_number (3 / 10) = Fin (5404319552844595 / 18014398509481984)"
  by (simp add: js_eval)

lemma js_add_tenth_two_tenths:
  "js_add (Fin (3602879701896397 / 36028797018963968))
          (Fin (3602879701896397 / 18014398509481984)) =
   Fin (1351079888211149 / 4503599627370496)"
  by (simp add: js_eval)

lemma js_add_2_53_1: "js_add (Fin (2 ^ 53)) (Fin 1) = Fin (2 ^ 53)"
  by (simp add: js_eval)

lemma js_add_2_53_3: "js_add (Fin (2 ^ 53)) (Fin 3) = Fin (2 ^ 53 + 4)"
  by (simp add: js_eval)

lemma js_add_halves: "js_add (Fin (21 / 2)) (Fin (21 / 2)) = Fin 21"
  by (simp add: js_eval)


section \<open>Verification: funding an account\<close>

subsection \<open>Lookups after a balance update\<close>

lemma find_owned_map_upd:
  "find (\<lambda>a. acc_id a = aid \<and> userId a = uid)
     (map (\<lambda>a. if acc_id a = aid then a\<lparr>balance := v\<rparr> else a) xs) =
   map_option (\<lambda>a. a\<lparr>balance := v\<rparr>) (find (\<lambda>a. acc_id a = aid \<and> userId a = uid) xs)"
  by (induction xs) auto

lemma find_map_upd:
  "find (\<lambda>a. acc_id a = aid) (map (\<lambda>a. if acc_id a = aid then a\<lparr>balance := v\<rparr> else a) xs) =
   map_option (\<lambda>a. a\<lparr>balance := v\<rparr>) (find (\<lambda>a. acc_id a = aid) xs)"
  by (induction xs) auto

lemma find_owned_by_id:
  "find (\<lambda>a. acc_id a = aid \<and> userId a = uid) xs = Some a \<Longrightarrow>
   \<exists>b. find (\<lambda>a. acc_id a = aid) xs = Some b"
  by (induction xs) (auto split: if_splits)

lemma find_Some_set: "find P xs = Some a \<Longrightarrow> a \<in> set xs \<and> P a"
  by (induction xs) (auto split: if_splits)


subsection \<open>The two outcomes of a call\<close>

lemma fundAccount_error_db:
  "fundAccount d u now input = (Inl e, d') \<Longrightarrow> d' = d"
  by (auto simp: fundAccount_def Let_def split: if_splits option.splits)

lemma fund_step_error:
  "fund_step u now input pc d = (Finished (Inl e), d') \<Longrightarrow> pc \<noteq> Finished (Inl e) \<Longrightarrow>
   d' = d \<and> pc = AtSelectAccount"
  by (cases pc) (auto split: option.splits if_splits)

lemma fundAccount_success:
  assumes "fundAccount d u now input = (Inr r, d')"
  shows "\<exists>account. select_account_owned d (in_accountId input) u = Some account \<and>
           acc_status account = ''active'' \<and> fundAccount_input_ok input \<and>
           d' = update_balance (insert_transaction d (in_accountId input) (in_amount input)
                           (funding_description (fs_type (fundingSource input))) now)
                  (in_accountId input) (js_add (balance account) (in_amount input))
           \<and> newBalance r = (case select_account_by_id d' (in_accountId input) of
                               Some u \<Rightarrow> balance u
                             | None \<Rightarrow> js_add (balance account) (in_amount input))"
  using assms
  by (auto simp: fundAccount_def Let_def split: if_splits option.splits)

lemma fund_start_ok:
  "fund_start input = AtSelectAccount \<longleftrightarrow>
   fundAccount_input_ok input \<and>
   \<not> (fs_type (fundingSource input) = Card \<and>
      \<not> isValidCardNumber (fs_accountNumber (fundingSource input)))"
  by (auto simp: fund_start_def)

lemma fundAccount_accepted:
  assumes acc: "select_account_owned d (in_accountId input) u = Some a"
    and act: "acc_status a = ''active''"
    and ok: "fund_start input = AtSelectAccount"
  shows "fst (fundAccount d u now input) =
           Inr \<lparr>r_transaction =
                  select_latest_transaction
                    (insert_transaction d (in_accountId input) (in_amount input)
                       (funding_description (fs_type (fundingSource input))) now)
                    (in_accountId input),
                newBalance = js_add (balance a) (in_amount input)\<rparr>"
    and "snd (fundAccount d u now input) =
           update_balance
             (insert_transaction d (in_accountId input) (in_amount input)
                (funding_description (fs_type (fundingSource input))) now)
             (in_accountId input) (js_add (balance a) (in_amount input))"
proof -
  from find_owned_by_id[OF acc[unfolded select_account_owned_def]]
  obtain b where b: "find (\<lambda>x. acc_id x = in_accountId input) (accounts d) = Some b" by blast
  from ok have v: "fundAccount_input_ok input"
    "\<not> (fs_type (fundingSource input) = Card \<and>
      \<not> isValidCardNumber (fs_accountNumber (fundingSource input)))"
    by (simp_all add: fund_start_ok)
  show "fst (fundAccount d u now input) =
           Inr \<lparr>r_transaction =
                  select_latest_transaction
                    (insert_transaction d (in_accountId input) (in_amount input)
                       (funding_description (fs_type (fundingSource input))) now)
                    (in_accountId input),
                newBalance = js_add (balance a) (in_amount input)\<rparr>"
    using acc act v b
    by (auto simp: fundAccount_def Let_def select_account_by_id_def update_balance_def
        insert_transaction_def find_map_upd)
  show "snd (fundAccount d u now input) =
           update_balance
             (insert_transaction d (in_accountId input) (in_amount input)
                (funding_description (fs_type (fundingSource input))) now)
             (in_accountId input) (js_add (balance a) (in_amount input))"
    using acc act v by (auto simp: fundAccount_def Let_def)
qed

lemma written_store_facts:
  fixes amt :: jsnum and descr :: string and now :: int and v :: jsnum
  assumes acc: "select_account_owned d aid u = Some a"
  defines "d' \<equiv> update_balance (insert_transaction d aid amt descr now) aid v"
  shows "select_account_owned d' aid u = Some (a\<lparr>balance := v\<rparr>)"
    and "\<exists>b. select_account_by_id d' aid = Some b \<and> balance b = v"
    and "length (journal_rows d' aid) = Suc (length (journal_rows d aid))"
proof -
  from find_owned_by_id[OF acc[unfolded select_account_owned_def]]
  obtain b where b: "find (\<lambda>x. acc_id x = aid) (accounts d) = Some b" by blast
  show "select_account_owned d' aid u = Some (a\<lparr>balance := v\<rparr>)"
    using acc by (simp add: d'_def select_account_owned_def update_balance_def
        insert_transaction_def find_owned_map_upd)
  show "\<exists>b. select_account_by_id d' aid = Some b \<and> balance b = v"
    using b by (simp add: d'_def select_account_by_id_def update_balance_def
        insert_transaction_def find_map_upd)
  show "length (journal_rows d' aid) = Suc (length (journal_rows d aid))"
    by (simp add: d'_def journal_rows_def update_balance_def insert_transaction_def)
qed


text \<open>Run alone, the five storage operations give what \<open>fundAccount\<close> gives.\<close>

lemma fund_steps_alone:
  "run_concurrent d [c] [0, 0, 0, 0, 0] =
     ([Finished (fst (fundAccount d (call_user c) (call_now c) (call_input c)))],
      snd (fundAccount d (call_user c) (call_now c) (call_input c)))"
  by (auto simp: run_concurrent_def fund_start_def fundAccount_def Let_def split: option.splits)

subsection \<open>The examples\<close>

lemma example_card_input_accepted:
  "js_positive amt \<Longrightarrow> fund_start (example_card_input amt) = AtSelectAccount"
  using card_4242_valid
  by (simp add: fund_start_def fundAccount_input_ok_def example_card_input_def)

lemma example_db_account:
  "select_account_owned example_db 1 7 =
     Some \<lparr>acc_id = 1, userId = 7, accountNumber = ''0123456789'', accountType = ''checking'',
           balance = Fin 0, acc_status = ''active''\<rparr>"
  by (simp add: select_account_owned_def example_db_def)

lemma example_funding:
  assumes "js_positive amt"
  shows "fundAccount example_db 7 now (example_card_input amt) =
     (Inr \<lparr>r_transaction =
             Some \<lparr>tx_id = 1, accountId = 1, tx_type = ''deposit'', amount = amt,
                   description = ''Funding from card'', tx_status = ''completed'',
                   createdAt = now, processedAt = now\<rparr>,
           newBalance = js_add (Fin 0) amt\<rparr>,
      \<lparr>accounts =
         [\<lparr>acc_id = 1, userId = 7, accountNumber = ''0123456789'', accountType = ''checking'',
           balance = js_add (Fin 0) amt, acc_status = ''active''\<rparr>,
          \<lparr>acc_id = 2, userId = 7, accountNumber = ''9876543210'', accountType = ''savings'',
           balance = Fin 0, acc_status = ''closed''\<rparr>],
       transactions =
         [\<lparr>tx_id = 1, accountId = 1, tx_type = ''deposit'', amount = amt,
           description = ''Funding from card'', tx_status = ''completed'',
           createdAt = now, processedAt = now\<rparr>]\<rparr>)"
  using card_4242_valid assms
  by (simp add: fundAccount_def fundAccount_input_ok_def example_card_input_def example_db_def
      select_account_owned_def select_account_by_id_def insert_transaction_def
      update_balance_def select_latest_transaction_def orderBy_createdAt_desc_def
      funding_description_def next_tx_id_def Let_def)

subsection \<open>Balance consistency\<close>

lemma completed_total_insert:
  "completed_total (insert_transaction d aid amt descr now) x =
   (if x = aid then js_add (completed_total d x) amt else completed_total d x)"
  by (simp add: completed_total_def insert_transaction_def)

lemma completed_total_update [simp]:
  "completed_total (update_balance d aid v) x = completed_total d x"
  by (simp add: completed_total_def update_balance_def)

lemma fund_write_consistent:
  assumes inv: "balance_consistent d"
    and acc: "select_account_owned d aid uid = Some account"
  shows "balance_consistent
           (update_balance (insert_transaction d aid amt descr now) aid
              (js_add (balance account) amt))"
proof -
  from find_Some_set[OF acc[unfolded select_account_owned_def]]
  have mem: "account \<in> set (accounts d)" and id: "acc_id account = aid" by auto
  from inv mem id have bal: "balance account = completed_total d aid"
    by (auto simp: balance_consistent_def list_all_iff)
  show ?thesis
    using inv bal
    by (auto simp: balance_consistent_def list_all_iff completed_total_insert
        update_balance_def insert_transaction_def completed_total_def)
qed

lemma fundAccount_consistent:
  "balance_consistent d \<Longrightarrow> balance_consistent (snd (fundAccount d u now input))"
proof (cases "fst (fundAccount d u now input)")
  case (Inl e)
  assume "balance_consistent d"
  moreover from Inl have "snd (fundAccount d u now input) = d"
    using fundAccount_error_db[of d u now input e "snd (fundAccount d u now input)"]
    by (metis prod.collapse)
  ultimately show ?thesis by simp
next
  case (Inr r)
  assume inv: "balance_consistent d"
  from Inr have "fundAccount d u now input = (Inr r, snd (fundAccount d u now input))"
    by (metis prod.collapse)
  from fundAccount_success[OF this] inv show ?thesis
    by (auto intro: fund_write_consistent)
qed

lemma fund_sequence_consistent:
  "balance_consistent d \<Longrightarrow> balance_consistent (fund_sequence d calls)"
  by (induction calls arbitrary: d) (auto intro: fundAccount_consistent)

subsection \<open>Calls one after another\<close>

lemma fund_sequence_total:
  "select_account_owned d aid u = Some a \<Longrightarrow> acc_status a = ''active'' \<Longrightarrow>
   list_all (funds u aid A) calls \<Longrightarrow>
   select_account_owned (fund_sequence d calls) aid u =
     Some (a\<lparr>balance := ((\<lambda>b. js_add b A) ^^ length calls) (balance a)\<rparr>) \<and>
   length (journal_rows (fund_sequence d calls) aid) = length (journal_rows d aid) + length calls \<and>
   (calls \<noteq> [] \<longrightarrow>
     (\<exists>b. select_account_by_id (fund_sequence d calls) aid = Some b \<and>
          balance b = ((\<lambda>b. js_add b A) ^^ length calls) (balance a)))"
proof (induction calls arbitrary: d a)
  case Nil
  then show ?case by simp
next
  case (Cons c cs)
  from Cons.prems(3) have fc: "funds u aid A c" and cs: "list_all (funds u aid A) cs"
    by simp_all
  from fc have c: "call_user c = u" "in_accountId (call_input c) = aid"
    "in_amount (call_input c) = A" "fund_start (call_input c) = AtSelectAccount"
    by (simp_all add: funds_def)
  let ?f = "\<lambda>b. js_add b A"
  let ?d1 = "snd (fundAccount d (call_user c) (call_now c) (call_input c))"
  let ?a1 = "a\<lparr>balance := js_add (balance a) A\<rparr>"
  have d1: "?d1 = update_balance
             (insert_transaction d aid A
                (funding_description (fs_type (fundingSource (call_input c)))) (call_now c))
             aid (js_add (balance a) A)"
    using fundAccount_accepted(2)[of d "call_input c" u a "call_now c"] Cons.prems(1,2) c
    by simp
  note w = written_store_facts[OF Cons.prems(1), of A
      "funding_description (fs_type (fundingSource (call_input c)))" "call_now c"
      "js_add (balance a) A"]
  have own1: "select_account_owned ?d1 aid u = Some ?a1" using w(1) d1 by simp
  have act1: "acc_status ?a1 = ''active''" using Cons.prems(2) by simp
  from Cons.IH[OF own1 act1 cs]
  have IH1: "select_account_owned (fund_sequence ?d1 cs) aid u =
       Some (?a1\<lparr>balance := (?f ^^ length cs) (balance ?a1)\<rparr>)"
    and IH2: "length (journal_rows (fund_sequence ?d1 cs) aid) =
       length (journal_rows ?d1 aid) + length cs"
    and IH3: "cs \<noteq> [] \<longrightarrow>
     (\<exists>b. select_account_by_id (fund_sequence ?d1 cs) aid = Some b \<and>
          balance b = (?f ^^ length cs) (balance ?a1))"
    by blast+
  have pow: "(?f ^^ length cs) (js_add (balance a) A) = (?f ^^ length (c # cs)) (balance a)"
    using funpow_swap1[of ?f "length cs" "balance a"] by simp
  have g1: "select_account_owned (fund_sequence d (c # cs)) aid u =
     Some (a\<lparr>balance := (?f ^^ length (c # cs)) (balance a)\<rparr>)"
    using IH1 pow by simp
  have g2: "length (journal_rows (fund_sequence d (c # cs)) aid) =
     length (journal_rows d aid) + length (c # cs)"
    using IH2 w(3) d1 by simp
  have g3: "\<exists>b. select_account_by_id (fund_sequence d (c # cs)) aid = Some b \<and>
          balance b = (?f ^^ length (c # cs)) (balance a)"
  proof (cases "cs = []")
    case True
    then show ?thesis using w(2) d1 by simp
  next
    case False
    then show ?thesis using IH3 pow by simp
  qed
  from g1 g2 g3 show ?case by blast
qed


subsection \<open>Calls in flight\<close>

text \<open>Replacing one entry of a list changes a count by the entry that left and the one that came.\<close>

lemma count_list_update:
  "i < length xs \<Longrightarrow>
   length (filter P (xs[i := y])) + (if P (xs ! i) then 1 else 0) =
   length (filter P xs) + (if P y then 1 else 0)"
proof (induction xs arbitrary: i)
  case Nil
  then show ?case by simp
next
  case (Cons x xs)
  show ?case
  proof (cases i)
    case 0
    then show ?thesis by simp
  next
    case (Suc j)
    with Cons.prems have "j < length xs" by simp
    from Cons.IH[OF this] Suc show ?thesis by simp
  qed
qed

lemma in_flight_step:
  assumes inv: "in_flight u aid n r0 (pcs, d)"
    and i: "i < length pcs"
    and c: "call_user c = u" "in_accountId (call_input c) = aid"
    and step: "fund_step (call_user c) (call_now c) (call_input c) (pcs ! i) d = (pc', d')"
  shows "in_flight u aid n r0 (pcs[i := pc'], d')"
proof -
  from inv obtain a where
    len: "length pcs = n" and
    own: "select_account_owned d aid u = Some a" and act: "acc_status a = ''active''" and
    ok: "list_all (\<lambda>pc. finished pc \<longrightarrow> succeeded pc) pcs" and
    rows: "length (journal_rows d aid) = r0 + length (filter inserted pcs)"
    by (auto simp: in_flight_def)
  note cnt = count_list_update[OF i, of inserted pc']
  have ok_upd: "list_all (\<lambda>pc. finished pc \<longrightarrow> succeeded pc) (pcs[i := pc'])"
    if "finished pc' \<longrightarrow> succeeded pc'"
    using ok that by (auto simp: list_all_iff dest!: set_update_subset_insert[THEN subsetD])
  show ?thesis
  proof (cases "pcs ! i")
    case AtSelectAccount
    with step own act c have "pc' = AtInsert a" "d' = d" by auto
    with cnt AtSelectAccount len own act rows ok_upd show ?thesis
      by (auto simp: in_flight_def)
  next
    case (AtInsert acct)
    with step c have pc': "pc' = AtSelectTransaction acct"
      and d': "d' = insert_transaction d aid (in_amount (call_input c))
                 (funding_description (fs_type (fundingSource (call_input c)))) (call_now c)"
      by auto
    have "select_account_owned d' aid u = Some a"
      using own by (simp add: d' select_account_owned_def insert_transaction_def)
    moreover have "length (journal_rows d' aid) = Suc (length (journal_rows d aid))"
      by (simp add: d' journal_rows_def insert_transaction_def)
    ultimately show ?thesis
      using cnt AtInsert pc' len act rows ok_upd by (auto simp: in_flight_def)
  next
    case (AtSelectTransaction acct)
    with step have "pc' = AtUpdate acct (select_latest_transaction d (in_accountId (call_input c)))"
      "d' = d" by auto
    with cnt AtSelectTransaction len own act rows ok_upd show ?thesis
      by (auto simp: in_flight_def)
  next
    case (AtUpdate acct t)
    with step c have pc': "pc' = AtRefetch acct t"
      and d': "d' = update_balance d aid (js_add (balance acct) (in_amount (call_input c)))"
      by auto
    have "select_account_owned d' aid u =
          Some (a\<lparr>balance := js_add (balance acct) (in_amount (call_input c))\<rparr>)"
      using own by (simp add: d' select_account_owned_def update_balance_def find_owned_map_upd)
    moreover have "journal_rows d' aid = journal_rows d aid"
      by (simp add: d' journal_rows_def update_balance_def)
    ultimately show ?thesis
      using cnt AtUpdate pc' len act rows ok_upd by (auto simp: in_flight_def)
  next
    case (AtRefetch acct t)
    with step obtain r where "pc' = Finished (Inr r)" "d' = d" by auto
    with cnt AtRefetch len own act rows ok_upd show ?thesis
      by (auto simp: in_flight_def)
  next
    case (Finished r)
    with step have "pc' = Finished r" "d' = d" by auto
    then have "pcs[i := pc'] = pcs" using Finished i by (simp add: list_update_same_conv)
    with inv \<open>d' = d\<close> show ?thesis by simp
  qed
qed

lemma in_flight_run:
  "list_all (funds u aid A) calls \<Longrightarrow> in_flight u aid (length calls) r0 (pcs, d) \<Longrightarrow>
   in_flight u aid (length calls) r0 (run_schedule calls sched (pcs, d))"
proof (induction sched arbitrary: pcs d)
  case Nil
  then show ?case by simp
next
  case (Cons i sched)
  show ?case
  proof (cases "i < length calls \<and> i < length pcs")
    case True
    then have "funds u aid A (calls ! i)" using Cons.prems(1) by (simp add: list_all_length)
    then have c: "call_user (calls ! i) = u" "in_accountId (call_input (calls ! i)) = aid"
      by (simp_all add: funds_def)
    obtain pc' d' where step:
      "fund_step (call_user (calls ! i)) (call_now (calls ! i)) (call_input (calls ! i))
         (pcs ! i) d = (pc', d')"
      by (cases "fund_step (call_user (calls ! i)) (call_now (calls ! i))
                   (call_input (calls ! i)) (pcs ! i) d")
    from in_flight_step[OF Cons.prems(2) _ c step] True
    have "in_flight u aid (length calls) r0 (pcs[i := pc'], d')" by simp
    from Cons.IH[OF Cons.prems(1) this] True step show ?thesis by simp
  next
    case False
    with Cons show ?thesis by auto
  qed
qed

lemma in_flight_start:
  assumes "select_account_owned d aid u = Some a" "acc_status a = ''active''"
    and "list_all (funds u aid A) calls"
  shows "in_flight u aid (length calls) (length (journal_rows d aid))
           (map (\<lambda>c. fund_start (call_input c)) calls, d)"
proof -
  have "map (\<lambda>c. fund_start (call_input c)) calls = replicate (length calls) AtSelectAccount"
    using assms(3) by (induction calls) (auto simp: funds_def)
  then show ?thesis using assms(1,2) by (simp add: in_flight_def list_all_iff)
qed

lemma finished_calls_rows:
  assumes "select_account_owned d aid u = Some a" "acc_status a = ''active''"
    and "list_all (funds u aid A) calls"
    and "list_all finished (fst (run_concurrent d calls sched))"
  shows "list_all succeeded (fst (run_concurrent d calls sched))"
    and "length (journal_rows (snd (run_concurrent d calls sched)) aid) =
         length (journal_rows d aid) + length calls"
proof -
  obtain pcs d' where R: "run_concurrent d calls sched = (pcs, d')"
    by (cases "run_concurrent d calls sched")
  from in_flight_run[OF assms(3) in_flight_start[OF assms(1,2,3)], of sched] R
  have inv: "in_flight u aid (length calls) (length (journal_rows d aid)) (pcs, d')"
    by (simp add: run_concurrent_def)
  from assms(4) R have fin: "list_all finished pcs" by simp
  from inv have ok: "list_all (\<lambda>pc. finished pc \<longrightarrow> succeeded pc) pcs"
    and len: "length pcs = length calls"
    and rows: "length (journal_rows d' aid) =
               length (journal_rows d aid) + length (filter inserted pcs)"
    by (auto simp: in_flight_def)
  from fin ok have suc: "list_all succeeded pcs" by (auto simp: list_all_iff)
  have "inserted pc" if "succeeded pc" for pc
    using that by (cases pc rule: succeeded.cases) auto
  with suc have "filter inserted pcs = pcs" by (auto simp: list_all_iff)
  with rows len suc R show "list_all succeeded (fst (run_concurrent d calls sched))"
    and "length (journal_rows (snd (run_concurrent d calls sched)) aid) =
         length (journal_rows d aid) + length calls"
    by simp_all
qed

subsection \<open>Evaluated runs\<close>

lemma js_add_examples:
  "js_add (Fin 0) (Fin 10) = Fin 10"
  "js_add (Fin 10) (Fin 10) = Fin 20"
  "js_add (Fin 0) (Fin 20000) = Fin 20000"
  "js_add (Fin 0) (Fin (21 / 2)) = Fin (21 / 2)"
  "js_add (Fin 0) (Fin (5632314283980227 / 562949953421312)) =
     Fin (5632314283980227 / 562949953421312)"
  "js_add (Fin 0) (Fin (3602879701896397 / 36028797018963968)) =
     Fin (3602879701896397 / 36028797018963968)"
  by (simp_all add: js_eval)

lemma js_number_examples:
  "js_number 20000 = Fin 20000"
  "js_number (2001 / 200) = Fin (5632314283980227 / 562949953421312)"
  by (simp_all add: js_eval)

text \<open>
  Two calls of amount 10 on the account of balance 0; both read the account before
  either writes.
\<close>

lemma interleaved_run:
  "run_concurrent example_db [example_call 1000 (Fin 10), example_call 1001 (Fin 10)]
     [0, 1, 0, 0, 0, 0, 1, 1, 1, 1] =
   ([Finished (Inr \<lparr>r_transaction =
                     Some \<lparr>tx_id = 1, accountId = 1, tx_type = ''deposit'', amount = Fin 10,
                           description = ''Funding from card'', tx_status = ''completed'',
                           createdAt = 1000, processedAt = 1000\<rparr>,
                   newBalance = Fin 10\<rparr>),
     Finished (Inr \<lparr>r_transaction =
                     Some \<lparr>tx_id = 2, accountId = 1, tx_type = ''deposit'', amount = Fin 10,
                           description = ''Funding from card'', tx_status = ''completed'',
                           createdAt = 1001, processedAt = 1001\<rparr>,
                   newBalance = Fin 10\<rparr>)],
    \<lparr>accounts =
       [\<lparr>acc_id = 1, userId = 7, accountNumber = ''0123456789'', accountType = ''checking'',
         balance = Fin 10, acc_status = ''active''\<rparr>,
        \<lparr>acc_id = 2, userId = 7, accountNumber = ''9876543210'', accountType = ''savings'',
         balance = Fin 0, acc_status = ''closed''\<rparr>],
     transactions =
       [\<lparr>tx_id = 1, accountId = 1, tx_type = ''deposit'', amount = Fin 10,
         description = ''Funding from card'', tx_status = ''completed'',
         createdAt = 1000, processedAt = 1000\<rparr>,
        \<lparr>tx_id = 2, accountId = 1, tx_type = ''deposit'', amount = Fin 10,
         description = ''Funding from card'', tx_status = ''completed'',
         createdAt = 1001, processedAt = 1001\<rparr>]\<rparr>)"
  using card_4242_valid
  by (simp add: run_concurrent_def fund_start_def fundAccount_input_ok_def
      example_card_input_def example_db_def example_call_def select_account_owned_def
      select_account_by_id_def insert_transaction_def update_balance_def
      select_latest_transaction_def orderBy_createdAt_desc_def funding_description_def
      next_tx_id_def Let_def js_add_examples del: js_add.simps)

text \<open>The amounts 0.1 and 0.2, funded one after the other.\<close>

lemma tenth_then_two_tenths:
  "fund_sequence example_db
     [example_call 1000 (js_number (1 / 10)), example_call 1001 (js_number (1 / 5))] =
   \<lparr>accounts =
       [\<lparr>acc_id = 1, userId = 7, accountNumber = ''0123456789'', accountType = ''checking'',
         balance = Fin (1351079888211149 / 4503599627370496), acc_status = ''active''\<rparr>,
        \<lparr>acc_id = 2, userId = 7, accountNumber = ''9876543210'', accountType = ''savings'',
         balance = Fin 0, acc_status = ''closed''\<rparr>],
     transactions =
       [\<lparr>tx_id = 1, accountId = 1, tx_type = ''deposit'',
         amount = Fin (3602879701896397 / 36028797018963968),
         description = ''Funding from card'', tx_status = ''completed'',
         createdAt = 1000, processedAt = 1000\<rparr>,
        \<lparr>tx_id = 2, accountId = 1, tx_type = ''deposit'',
         amount = Fin (3602879701896397 / 18014398509481984),
         description = ''Funding from card'', tx_status = ''completed'',
         createdAt = 1001, processedAt = 1001\<rparr>]\<rparr>"
  using card_4242_valid
  by (simp add: js_number_tenth js_number_fifth example_call_def fundAccount_def
      fundAccount_input_ok_def example_card_input_def example_db_def select_account_owned_def
      select_account_by_id_def insert_transaction_def update_balance_def
      select_latest_transaction_def orderBy_createdAt_desc_def funding_description_def
      next_tx_id_def Let_def js_add_examples js_add_tenth_two_tenths del: js_add.simps)


lemma funpow_js_add_exact:
  "\<forall>k \<in> {1..n}. js_number (of_nat k * x) = Fin (of_nat k * x) \<Longrightarrow>
   ((\<lambda>b. js_add b (Fin x)) ^^ n) (Fin 0) = Fin (of_nat n * x)"
proof (induction n)
  case 0
  then show ?case by simp
next
  case (Suc n)
  then have IH: "((\<lambda>b. js_add b (Fin x)) ^^ n) (Fin 0) = Fin (of_nat n * x)" by simp
  have "of_nat n * x + x = of_nat (Suc n) * x" by (simp add: algebra_simps)
  moreover from Suc.prems have "js_number (of_nat (Suc n) * x) = Fin (of_nat (Suc n) * x)"
    by (metis atLeastAtMost_iff le_refl le_add1 plus_1_eq_Suc)
  ultimately show ?case using IH by (simp del: of_nat_Suc)
qed

subsection \<open>The claims about funding\<close>

text \<open>
  Claim C1, as the specification states it, fails. After two calls of amount 10 whose
  storage operations interleave, both successful, the stored balance is 10 beside two
  completed transactions of 10 each. And after the amounts 0.1 and 0.2 funded one after
  the other, the stored balance is the double 0.30000000000000004, which is not the sum
  of the two stored amounts.
\<close>

theorem funding_breaks_balance_sum:
  "balance_consistent example_db
   \<and> \<not> balance_consistent
        (snd (run_concurrent example_db [example_call 1000 (Fin 10), example_call 1001 (Fin 10)]
                [0, 1, 0, 0, 0, 0, 1, 1, 1, 1]))
   \<and> map_option balance
       (select_account_by_id
          (fund_sequence example_db
             [example_call 1000 (js_number (1 / 10)), example_call 1001 (js_number (1 / 5))])
          1) = Some (Fin (1351079888211149 / 4503599627370496))
   \<and> map amount
       (journal_rows
          (fund_sequence example_db
             [example_call 1000 (js_number (1 / 10)), example_call 1001 (js_number (1 / 5))])
          1) =
     [Fin (3602879701896397 / 36028797018963968), Fin (3602879701896397 / 18014398509481984)]
   \<and> (1351079888211149 / 4503599627370496 :: rat) \<noteq>
       3602879701896397 / 36028797018963968 + 3602879701896397 / 18014398509481984"
proof -
  have "balance_consistent example_db"
    by (simp add: balance_consistent_def completed_total_def example_db_def)
  moreover have "\<not> balance_consistent
        (snd (run_concurrent example_db [example_call 1000 (Fin 10), example_call 1001 (Fin 10)]
                [0, 1, 0, 0, 0, 0, 1, 1, 1, 1]))"
    unfolding interleaved_run
    by (simp add: balance_consistent_def completed_total_def js_add_examples
        del: js_add.simps)
  moreover have "map_option balance
       (select_account_by_id
          (fund_sequence example_db
             [example_call 1000 (js_number (1 / 10)), example_call 1001 (js_number (1 / 5))])
          1) = Some (Fin (1351079888211149 / 4503599627370496))"
    unfolding tenth_then_two_tenths by (simp add: select_account_by_id_def)
  moreover have "map amount
       (journal_rows
          (fund_sequence example_db
             [example_call 1000 (js_number (1 / 10)), example_call 1001 (js_number (1 / 5))])
          1) =
     [Fin (3602879701896397 / 36028797018963968), Fin (3602879701896397 / 18014398509481984)]"
    unfolding tenth_then_two_tenths by (simp add: journal_rows_def)
  moreover have "(1351079888211149 / 4503599627370496 :: rat) \<noteq>
       3602879701896397 / 36028797018963968 + 3602879701896397 / 18014398509481984"
    by simp
  ultimately show ?thesis by blast
qed

text \<open>
  Claim C1, amended. Starting from a store in which every account's balance is the sum
  of the amounts of its completed transactions, added in journal order with the addition
  of JavaScript numbers, the same holds after any sequence of \<open>fundAccount\<close> calls that
  run one after another, each to its end before the next one starts.
\<close>

theorem balance_consistency:
  "balance_consistent d \<Longrightarrow> balance_consistent (fund_sequence d calls)"
  by (rule fund_sequence_consistent)

theorem balance_consistency_witness:
  "balance_consistent example_history_db
   \<and> balance_consistent
       (fund_sequence example_history_db [example_call 3000 (Fin (21 / 2)), example_call 3001 (Fin 5)])"
proof -
  have h: "balance_consistent example_history_db"
    by (simp add: balance_consistent_def completed_total_def example_history_db_def js_eval)
  from balance_consistency[OF h] h show ?thesis by blast
qed

text \<open>
  Claim C2, as the specification states it, fails: two calls of amount 10 on the account
  of balance 0 whose storage operations interleave (both read the account before either
  writes) both succeed and leave a stored balance of 10, not 20, beside two journal
  rows.
\<close>

theorem concurrent_funding_lost_update:
  "list_all succeeded
     (fst (run_concurrent example_db [example_call 1000 (Fin 10), example_call 1001 (Fin 10)]
             [0, 1, 0, 0, 0, 0, 1, 1, 1, 1]))
   \<and> map_option balance
       (select_account_by_id
          (snd (run_concurrent example_db [example_call 1000 (Fin 10), example_call 1001 (Fin 10)]
                  [0, 1, 0, 0, 0, 0, 1, 1, 1, 1])) 1) = Some (Fin 10)
   \<and> length
       (journal_rows
          (snd (run_concurrent example_db [example_call 1000 (Fin 10), example_call 1001 (Fin 10)]
                  [0, 1, 0, 0, 0, 0, 1, 1, 1, 1])) 1) = 2
   \<and> Fin 10 \<noteq> Fin (2 * 10)"
  unfolding interleaved_run by (simp add: select_account_by_id_def journal_rows_def)

text \<open>
  Claim C2, amended. Take \<open>N \<ge> 1\<close> calls of amount \<open>A\<close> that pass the input checks, on
  one active account of balance 0 without journal rows. However their storage operations
  interleave, once all calls have finished all have succeeded and the account has
  exactly \<open>N\<close> journal rows. When the calls run one after another, the final stored
  balance is \<open>A\<close> added \<open>N\<close> times to 0 with the addition of JavaScript numbers; it is
  exactly \<open>N * A\<close> when every multiple \<open>k * A\<close> up to \<open>N * A\<close> is a double.
\<close>

theorem funding_rows_and_total:
  assumes "select_account_owned d aid u = Some a"
    and "balance a = Fin 0"
    and "acc_status a = ''active''"
    and "journal_rows d aid = []"
    and "list_all (funds u aid A) calls"
    and "calls \<noteq> []"
  shows "(list_all finished (fst (run_concurrent d calls sched)) \<longrightarrow>
            list_all succeeded (fst (run_concurrent d calls sched)) \<and>
            length (journal_rows (snd (run_concurrent d calls sched)) aid) = length calls)
         \<and> map_option balance (select_account_by_id (fund_sequence d calls) aid) =
             Some (((\<lambda>b. js_add b A) ^^ length calls) (Fin 0))
         \<and> length (journal_rows (fund_sequence d calls) aid) = length calls
         \<and> (A = Fin x \<and>
              (\<forall>k \<in> {1..length calls}. js_number (of_nat k * x) = Fin (of_nat k * x)) \<longrightarrow>
              map_option balance (select_account_by_id (fund_sequence d calls) aid) =
                Some (Fin (of_nat (length calls) * x)))"
proof -
  have seq: "map_option balance (select_account_by_id (fund_sequence d calls) aid) =
               Some (((\<lambda>b. js_add b A) ^^ length calls) (Fin 0))"
    and rows: "length (journal_rows (fund_sequence d calls) aid) = length calls"
    using fund_sequence_total[OF assms(1,3,5)] assms(2,4,6) by auto
  have conc: "list_all succeeded (fst (run_concurrent d calls sched)) \<and>
              length (journal_rows (snd (run_concurrent d calls sched)) aid) = length calls"
    if "list_all finished (fst (run_concurrent d calls sched))"
    using finished_calls_rows[OF assms(1,3,5) that] assms(4) by simp
  have exact: "map_option balance (select_account_by_id (fund_sequence d calls) aid) =
                Some (Fin (of_nat (length calls) * x))"
    if "A = Fin x" "\<forall>k \<in> {1..length calls}. js_number (of_nat k * x) = Fin (of_nat k * x)"
    using seq that funpow_js_add_exact[of "length calls" x] by simp
  from seq rows conc exact show ?thesis by blast
qed

theorem funding_rows_and_total_witness:
  "list_all (funds 7 1 (Fin 10)) [example_call 1000 (Fin 10), example_call 1001 (Fin 10)]
   \<and> list_all finished
       (fst (run_concurrent example_db [example_call 1000 (Fin 10), example_call 1001 (Fin 10)]
               [0, 1, 0, 0, 0, 0, 1, 1, 1, 1]))
   \<and> length
       (journal_rows
          (snd (run_concurrent example_db [example_call 1000 (Fin 10), example_call 1001 (Fin 10)]
                  [0, 1, 0, 0, 0, 0, 1, 1, 1, 1])) 1) = 2
   \<and> js_number 10 = Fin 10
   \<and> js_number 20 = Fin 20
   \<and> map_option balance
       (select_account_by_id
          (fund_sequence example_db [example_call 1000 (Fin 10), example_call 1001 (Fin 10)]) 1) =
     Some (Fin 20)
   \<and> length
       (journal_rows
          (fund_sequence example_db [example_call 1000 (Fin 10), example_call 1001 (Fin 10)]) 1) = 2"
proof -
  let ?calls = "[example_call 1000 (Fin 10), example_call 1001 (Fin 10)]"
  let ?sched = "[0, 1, 0, 0, 0, 0, 1, 1, 1, 1] :: nat list"
  have rows0: "journal_rows example_db 1 = []"
    by (simp add: journal_rows_def example_db_def)
  have acc: "fund_start (example_card_input (Fin 10)) = AtSelectAccount"
    by (rule example_card_input_accepted) simp
  have calls: "list_all (funds 7 1 (Fin 10)) ?calls"
    using acc by (simp add: funds_def example_call_def) (simp add: example_card_input_def)
  have fin: "list_all finished (fst (run_concurrent example_db ?calls ?sched))"
    unfolding interleaved_run by simp
  have "k = 1 \<or> k = 2" if "k \<in> {1..2::nat}" for k using that by auto
  then have ex: "\<forall>k \<in> {1..2::nat}. js_number (of_nat k * 10) = Fin (of_nat k * 10)"
    by (auto simp: js_eval)
  have len: "length ?calls = 2" by simp
  from funding_rows_and_total[OF example_db_account _ _ rows0 calls, of ?sched 10] fin ex
  have "length (journal_rows (snd (run_concurrent example_db ?calls ?sched)) 1) = 2
        \<and> map_option balance (select_account_by_id (fund_sequence example_db ?calls) 1) =
            Some (Fin 20)
        \<and> length (journal_rows (fund_sequence example_db ?calls) 1) = 2"
    by (simp only: len) simp
  moreover have "js_number 10 = Fin 10" "js_number 20 = Fin 20"
    by (simp_all add: js_eval)
  ultimately show ?thesis using calls fin by blast
qed

text \<open>
  Claim C3, as the specification states it, fails: the procedure checks that the amount
  is positive and nothing more. An amount of 20000, above the ceiling, and an amount of
  10.005, with three fractional digits, are both accepted and written to the store.
\<close>

theorem fundAccount_accepts_unchecked_amounts:
  "\<not> spec_amount_ok 20000
   \<and> fundAccount example_db 7 1000 (example_card_input (js_number 20000)) =
     (Inr \<lparr>r_transaction =
             Some \<lparr>tx_id = 1, accountId = 1, tx_type = ''deposit'', amount = Fin 20000,
                   description = ''Funding from card'', tx_status = ''completed'',
                   createdAt = 1000, processedAt = 1000\<rparr>,
           newBalance = Fin 20000\<rparr>,
      \<lparr>accounts =
         [\<lparr>acc_id = 1, userId = 7, accountNumber = ''0123456789'', accountType = ''checking'',
           balance = Fin 20000, acc_status = ''active''\<rparr>,
          \<lparr>acc_id = 2, userId = 7, accountNumber = ''9876543210'', accountType = ''savings'',
           balance = Fin 0, acc_status = ''closed''\<rparr>],
       transactions =
         [\<lparr>tx_id = 1, accountId = 1, tx_type = ''deposit'', amount = Fin 20000,
           description = ''Funding from card'', tx_status = ''completed'',
           createdAt = 1000, processedAt = 1000\<rparr>]\<rparr>)
   \<and> \<not> spec_amount_ok (2001 / 200)
   \<and> fst (fundAccount example_db 7 1000 (example_card_input (js_number (2001 / 200)))) =
     Inr \<lparr>r_transaction =
            Some \<lparr>tx_id = 1, accountId = 1, tx_type = ''deposit'',
                  amount = Fin (5632314283980227 / 562949953421312),
                  description = ''Funding from card'', tx_status = ''completed'',
                  createdAt = 1000, processedAt = 1000\<rparr>,
          newBalance = Fin (5632314283980227 / 562949953421312)\<rparr>"
proof -
  have "\<not> spec_amount_ok 20000" by (simp add: spec_amount_ok_def)
  moreover have "\<not> at_most_2_fractional_digits (2001 / 200)" by code_simp
  then have "\<not> spec_amount_ok (2001 / 200)" by (simp add: spec_amount_ok_def)
  moreover have "fundAccount example_db 7 1000 (example_card_input (js_number 20000)) =
     (Inr \<lparr>r_transaction =
             Some \<lparr>tx_id = 1, accountId = 1, tx_type = ''deposit'', amount = Fin 20000,
                   description = ''Funding from card'', tx_status = ''completed'',
                   createdAt = 1000, processedAt = 1000\<rparr>,
           newBalance = Fin 20000\<rparr>,
      \<lparr>accounts =
         [\<lparr>acc_id = 1, userId = 7, accountNumber = ''0123456789'', accountType = ''checking'',
           balance = Fin 20000, acc_status = ''active''\<rparr>,
          \<lparr>acc_id = 2, userId = 7, accountNumber = ''9876543210'', accountType = ''savings'',
           balance = Fin 0, acc_status = ''closed''\<rparr>],
       transactions =
         [\<lparr>tx_id = 1, accountId = 1, tx_type = ''deposit'', amount = Fin 20000,
           description = ''Funding from card'', tx_status = ''completed'',
           createdAt = 1000, processedAt = 1000\<rparr>]\<rparr>)"
    unfolding js_number_examples
    using example_funding[of "Fin 20000" 1000] by (simp add: js_add_examples del: js_add.simps)
  moreover have "fst (fundAccount example_db 7 1000
                        (example_card_input (js_number (2001 / 200)))) =
     Inr \<lparr>r_transaction =
            Some \<lparr>tx_id = 1, accountId = 1, tx_type = ''deposit'',
                  amount = Fin (5632314283980227 / 562949953421312),
                  description = ''Funding from card'', tx_status = ''completed'',
                  createdAt = 1000, processedAt = 1000\<rparr>,
          newBalance = Fin (5632314283980227 / 562949953421312)\<rparr>"
    unfolding js_number_examples
    using example_funding[of "Fin (5632314283980227 / 562949953421312)" 1000]
    by (simp add: js_add_examples del: js_add.simps)
  ultimately show ?thesis by blast
qed

text \<open>
  Claim C3, amended. \<open>fundAccount\<close> fails with \<open>InvalidInput\<close> whenever the amount is not
  positive, and the store is then left as it was.
\<close>

theorem fundAccount_rejects_nonpositive_amount:
  "\<not> js_positive (in_amount input) \<Longrightarrow> fundAccount d u now input = (Inl InvalidInput, d)"
  by (simp add: fundAccount_def fundAccount_input_ok_def)

theorem fundAccount_rejects_nonpositive_amount_witness:
  "\<not> js_positive (in_amount (example_card_input (Fin 0)))
   \<and> fundAccount example_db 7 1000 (example_card_input (Fin 0)) = (Inl InvalidInput, example_db)
   \<and> \<not> js_positive (in_amount (example_card_input (Fin (- 5))))
   \<and> fundAccount example_db 7 1000 (example_card_input (Fin (- 5))) =
       (Inl InvalidInput, example_db)"
proof -
  have z: "\<not> js_positive (in_amount (example_card_input (Fin 0)))"
    by (simp add: example_card_input_def)
  have n: "\<not> js_positive (in_amount (example_card_input (Fin (- 5))))"
    by (simp add: example_card_input_def)
  from fundAccount_rejects_nonpositive_amount[OF z]
    fundAccount_rejects_nonpositive_amount[OF n] z n
  show ?thesis by blast
qed



text \<open>
  Claim C8. When \<open>fundAccount\<close> fails, with \<open>InvalidInput\<close>, \<open>NotFound\<close> or
  \<open>InvalidState\<close>, the store is left as it was: no journal row is appended and no
  balance is changed. Among the storage operations of a call, only the first one, the
  lookup of the account, can end the call with an error, and it writes nothing.
\<close>

theorem fundAccount_failure_leaves_store:
  "(fst (fundAccount d u now input) = Inl e \<longrightarrow> snd (fundAccount d u now input) = d)
   \<and> (fund_step u now input pc s = (Finished (Inl e), s') \<and> pc \<noteq> Finished (Inl e) \<longrightarrow>
        s' = s \<and> pc = AtSelectAccount)
   \<and> (fund_start input = Finished r \<longrightarrow> r = Inl InvalidInput)"
proof -
  have "snd (fundAccount d u now input) = d" if "fst (fundAccount d u now input) = Inl e"
  proof -
    from that have "fundAccount d u now input = (Inl e, snd (fundAccount d u now input))"
      by (metis prod.collapse)
    then show ?thesis by (rule fundAccount_error_db)
  qed
  moreover have "fund_start input = Finished r \<longrightarrow> r = Inl InvalidInput"
    by (auto simp: fund_start_def split: if_splits)
  ultimately show ?thesis using fund_step_error[of u now input pc s e s'] by blast
qed

theorem fundAccount_failure_leaves_store_witness:
  "fundAccount example_db 7 1000 (example_card_input (Fin 0)) = (Inl InvalidInput, example_db)
   \<and> fundAccount example_db 9 1000 (example_card_input (Fin 10)) = (Inl NotFound, example_db)
   \<and> fundAccount example_db 7 1000 ((example_card_input (Fin 10))\<lparr>in_accountId := 2\<rparr>) =
       (Inl InvalidState, example_db)
   \<and> fund_step 9 1000 (example_card_input (Fin 10)) AtSelectAccount example_db =
       (Finished (Inl NotFound), example_db)
   \<and> fund_start (example_card_input (Fin 0)) = Finished (Inl InvalidInput)"
proof -
  have ok: "fundAccount_input_ok (example_card_input (Fin 10))"
    by (simp add: fundAccount_input_ok_def example_card_input_def)
  have ok2: "fundAccount_input_ok ((example_card_input (Fin 10))\<lparr>in_accountId := 2\<rparr>)"
    by (simp add: fundAccount_input_ok_def example_card_input_def)
  have e1: "fst (fundAccount example_db 7 1000 (example_card_input (Fin 0))) = Inl InvalidInput"
    by (simp add: fundAccount_def fundAccount_input_ok_def example_card_input_def)
  have e2: "fst (fundAccount example_db 9 1000 (example_card_input (Fin 10))) = Inl NotFound"
    using card_4242_valid ok
    by (simp add: fundAccount_def select_account_owned_def example_db_def)
      (simp add: example_card_input_def)
  have e3: "fst (fundAccount example_db 7 1000 ((example_card_input (Fin 10))\<lparr>in_accountId := 2\<rparr>)) =
            Inl InvalidState"
    using card_4242_valid ok2
    by (simp add: fundAccount_def select_account_owned_def example_db_def)
      (simp add: example_card_input_def)
  have e4: "fund_step 9 1000 (example_card_input (Fin 10)) AtSelectAccount example_db =
       (Finished (Inl NotFound), example_db)"
    by (simp add: select_account_owned_def example_db_def example_card_input_def)
  have e5: "fund_start (example_card_input (Fin 0)) = Finished (Inl InvalidInput)"
    by (simp add: fund_start_def fundAccount_input_ok_def example_card_input_def)
  from fundAccount_failure_leaves_store[of example_db 7 1000 "example_card_input (Fin 0)"
      InvalidInput AtSelectAccount example_db example_db "Inl InvalidInput"] e1
  have s1: "snd (fundAccount example_db 7 1000 (example_card_input (Fin 0))) = example_db" by blast
  from fundAccount_failure_leaves_store[of example_db 9 1000 "example_card_input (Fin 10)"
      NotFound AtSelectAccount example_db example_db "Inl InvalidInput"] e2
  have s2: "snd (fundAccount example_db 9 1000 (example_card_input (Fin 10))) = example_db" by blast
  from fundAccount_failure_leaves_store[of example_db 7 1000
      "(example_card_input (Fin 10))\<lparr>in_accountId := 2\<rparr>"
      InvalidState AtSelectAccount example_db example_db "Inl InvalidInput"] e3
  have s3: "snd (fundAccount example_db 7 1000 ((example_card_input (Fin 10))\<lparr>in_accountId := 2\<rparr>)) =
            example_db" by blast
  from e1 s1 e2 s2 e3 s3 e4 e5 show ?thesis
    by (metis prod.collapse)
qed



section \<open>Verification: transaction history\<close>

lemma getTransactions_page:
  assumes "select_account_owned d aid u = Some a" "1 \<le> l" "l \<le> 100" "0 \<le> off"
  shows "getTransactions d u \<lparr>q_accountId = aid, limit = Some l, offset = Some off\<rparr> =
         Inr (take (nat l) (drop (nat off) (joined_history d aid)))"
  using assms by (simp add: getTransactions_def getTransactions_input_ok_def)

lemma collect_pages_drop:
  "select_account_owned d aid u = Some a \<Longrightarrow> 1 \<le> l \<Longrightarrow> l \<le> 100 \<Longrightarrow> 0 \<le> off \<Longrightarrow>
   collect_pages d u aid l off = Inr (drop (nat off) (joined_history d aid))"
proof (induction d u aid l off rule: collect_pages.induct)
  case (1 d u aid l off)
  let ?H = "joined_history d aid"
  let ?page = "take (nat l) (drop (nat off) ?H)"
  have g: "getTransactions d u \<lparr>q_accountId = aid, limit = Some l, offset = Some off\<rparr> = Inr ?page"
    using "1.prems" by (rule getTransactions_page)
  show ?case
  proof (cases "int (length ?page) < l")
    case True
    then have "length (drop (nat off) ?H) < nat l" using "1.prems"(2)
      by (simp add: min_def split: if_splits)
    then have "?page = drop (nat off) ?H" by simp
    with g True show ?thesis
      by (subst collect_pages.simps) simp
  next
    case False
    have off': "0 \<le> off + l" using "1.prems" by simp
    have rest: "collect_pages d u aid l (off + l) = Inr (drop (nat (off + l)) ?H)"
      using "1.IH"[OF g False "1.prems"(1,2,3) off'] .
    have "drop (nat (off + l)) ?H = drop (nat l) (drop (nat off) ?H)"
      using "1.prems" by (simp add: nat_add_distrib add.commute)
    then have "?page @ drop (nat (off + l)) ?H = drop (nat off) ?H"
      by (simp only: append_take_drop_id)
    with g False rest show ?thesis
      by (subst collect_pages.simps) simp
  qed
qed

lemma insort_key_map:
  "insort_key f (g x) (map g ys) = map g (insort_key (\<lambda>y. f (g y)) x ys)"
  by (induction ys) auto

lemma sort_key_map:
  "sort_key f (map g xs) = map g (sort_key (\<lambda>y. f (g y)) xs)"
  by (induction xs) (auto simp: insort_key_map)

lemma enrich_fields [simp]:
  "accountId (enrich t ty) = accountId t"
  "createdAt (enrich t ty) = createdAt t"
  "e_accountType (enrich t ty) = ty"
  "transaction.truncate (enrich t ty) = t"
  by (simp_all add: enrich_def transaction.extend_def enriched_transaction.fields_def
      transaction.truncate_def)

lemma orderBy_enrich:
  "orderBy_createdAt_desc (map (\<lambda>t. enrich t ty) ts) =
   map (\<lambda>t. enrich t ty) (orderBy_createdAt_desc ts)"
  by (simp add: orderBy_createdAt_desc_def sort_key_map)

lemma unique_id_filter:
  "distinct (map acc_id xs) \<Longrightarrow> find (\<lambda>a. acc_id a = aid) xs = Some a0 \<Longrightarrow>
   filter (\<lambda>a. aid = acc_id a) xs = [a0]"
proof (induction xs)
  case Nil
  then show ?case by simp
next
  case (Cons x xs)
  show ?case
  proof (cases "acc_id x = aid")
    case True
    from Cons.prems(1) have "acc_id x \<notin> acc_id ` set xs" by simp
    with True have none: "\<forall>y \<in> set xs. aid \<noteq> acc_id y" by (metis imageI)
    from True Cons.prems(2) have "x = a0" by simp
    with none show ?thesis using True by (simp add: filter_empty_conv)
  next
    case False
    with Cons show ?thesis by auto
  qed
qed

lemma join_of_account:
  assumes "filter (\<lambda>a. aid = acc_id a) accs = [a0]"
  shows "filter (\<lambda>r. accountId r = aid)
           (concat (map (\<lambda>t. map (\<lambda>a. enrich t (Some (accountType a)))
                               (filter (\<lambda>a. accountId t = acc_id a) accs)) ts)) =
         map (\<lambda>t. enrich t (Some (accountType a0))) (filter (\<lambda>t. accountId t = aid) ts)"
proof (induction ts)
  case Nil
  then show ?case by simp
next
  case (Cons t ts)
  show ?case
  proof (cases "accountId t = aid")
    case True
    then show ?thesis using Cons assms by simp
  next
    case False
    then have "filter (\<lambda>r. accountId r = aid)
                 (map (\<lambda>a. enrich t (Some (accountType a)))
                     (filter (\<lambda>a. accountId t = acc_id a) accs)) = []"
      by (simp add: filter_empty_conv)
    then show ?thesis using Cons False by simp
  qed
qed

lemma find_owned_by_id_unique:
  "distinct (map acc_id xs) \<Longrightarrow> find (\<lambda>a. acc_id a = aid \<and> userId a = uid) xs = Some a \<Longrightarrow>
   find (\<lambda>a. acc_id a = aid) xs = Some a"
proof (induction xs)
  case Nil
  then show ?case by simp
next
  case (Cons x xs)
  show ?case
  proof (cases "acc_id x = aid")
    case True
    note idx = True
    show ?thesis
    proof (cases "userId x = uid")
      case True
      with idx Cons.prems show ?thesis by simp
    next
      case False
      with idx Cons.prems have "find (\<lambda>a. acc_id a = aid \<and> userId a = uid) xs = Some a"
        by simp
      then have "a \<in> set xs \<and> acc_id a = aid"
        by (induction xs) (auto split: if_splits)
      then have "aid \<in> acc_id ` set xs" by (metis imageI)
      moreover from Cons.prems(1) have "acc_id x \<notin> acc_id ` set xs" by simp
      ultimately show ?thesis using idx by simp
    qed
  next
    case False
    with Cons show ?thesis by simp
  qed
qed

lemma joined_history_eq:
  assumes uniq: "account_ids_unique d" and own: "select_account_owned d aid u = Some a"
  shows "joined_history d aid =
         map (\<lambda>t. enrich t (Some (accountType a))) (orderBy_createdAt_desc (journal_rows d aid))"
proof -
  from find_owned_by_id_unique[OF uniq[unfolded account_ids_unique_def]
      own[unfolded select_account_owned_def]]
  have byid: "find (\<lambda>x. acc_id x = aid) (accounts d) = Some a" .
  from unique_id_filter[OF uniq[unfolded account_ids_unique_def] byid]
  have "filter (\<lambda>x. aid = acc_id x) (accounts d) = [a]" .
  from join_of_account[OF this, of "transactions d"] show ?thesis
    by (simp add: joined_history_def innerJoin_accounts_def journal_rows_def orderBy_enrich)
qed

lemma per_row_eq:
  assumes uniq: "account_ids_unique d" and own: "select_account_owned d aid u = Some a"
  shows "getTransactions_per_row d u aid = Inr (joined_history d aid)"
proof -
  from find_owned_by_id_unique[OF uniq[unfolded account_ids_unique_def]
      own[unfolded select_account_owned_def]]
  have byid: "select_account_by_id d aid = Some a" by (simp add: select_account_by_id_def)
  have "map (\<lambda>t. enrich t (map_option accountType (select_account_by_id d (accountId t))))
            (orderBy_createdAt_desc (filter (\<lambda>t. accountId t = aid) (transactions d))) =
        map (\<lambda>t. enrich t (Some (accountType a)))
            (orderBy_createdAt_desc (filter (\<lambda>t. accountId t = aid) (transactions d)))"
    by (rule map_cong) (auto simp: orderBy_createdAt_desc_def byid)
  then show ?thesis
    using own by (simp add: getTransactions_per_row_def joined_history_eq[OF uniq own]
        journal_rows_def)
qed

lemma join_eq_per_row:
  assumes uniq: "account_ids_unique d" and ok: "getTransactions_input_ok input"
  shows "getTransactions d u input =
         map_sum id (page_of (case limit input of None \<Rightarrow> 50 | Some l \<Rightarrow> l)
                             (case offset input of None \<Rightarrow> 0 | Some off \<Rightarrow> off))
           (getTransactions_per_row d u (q_accountId input))"
proof (cases "select_account_owned d (q_accountId input) u")
  case None
  then show ?thesis using ok by (simp add: getTransactions_def getTransactions_per_row_def)
next
  case (Some a)
  from per_row_eq[OF uniq Some] Some ok show ?thesis
    by (simp add: getTransactions_def page_of_def)
qed

lemma history_sorted:
  "sorted_wrt (\<lambda>r r'. createdAt r \<ge> createdAt r') (joined_history d aid)"
proof -
  have "sorted (map (\<lambda>r. - createdAt r) (joined_history d aid))"
    by (simp add: joined_history_def orderBy_createdAt_desc_def)
  then show ?thesis by (simp add: sorted_map)
qed

lemma history_complete:
  assumes uniq: "account_ids_unique d" and own: "select_account_owned d aid u = Some a"
  shows "mset (map transaction.truncate (joined_history d aid)) = mset (journal_rows d aid)"
  by (simp add: joined_history_eq[OF uniq own] orderBy_createdAt_desc_def o_def)

subsection \<open>The claims about the history\<close>

lemma example_history_account:
  "select_account_owned example_history_db 1 7 =
     Some \<lparr>acc_id = 1, userId = 7, accountNumber = ''0123456789'', accountType = ''checking'',
           balance = Fin 45, acc_status = ''active''\<rparr>"
  by (simp add: select_account_owned_def example_history_db_def)

lemma example_history_unique: "account_ids_unique example_history_db"
  by (simp add: account_ids_unique_def example_history_db_def)

lemma example_history_order: "map tx_id (joined_history example_history_db 1) = [4, 1, 2]"
  by (simp add: joined_history_def innerJoin_accounts_def example_history_db_def
      orderBy_createdAt_desc_def enrich_def transaction.extend_def
      enriched_transaction.fields_def)

text \<open>
  Claim C6. For an account of the caller, in a store whose account ids are unique, and
  for every limit from 1 to 100, the pages at offsets 0, limit, 2 * limit and so on,
  concatenated until a short page comes back, are the whole history of the account:
  latest \<open>createdAt\<close> first, every journal row of the account exactly as often as the
  journal holds it, each with the type of the account. Equal \<open>createdAt\<close> values are
  allowed.
\<close>

theorem pagination_reproduces_history:
  assumes "account_ids_unique d"
    and "select_account_owned d aid u = Some a"
    and "1 \<le> l" and "l \<le> 100"
  shows "collect_pages d u aid l 0 = Inr (joined_history d aid)
         \<and> sorted_wrt (\<lambda>r r'. createdAt r \<ge> createdAt r') (joined_history d aid)
         \<and> mset (map transaction.truncate (joined_history d aid)) = mset (journal_rows d aid)
         \<and> list_all (\<lambda>r. e_accountType r = Some (accountType a)) (joined_history d aid)"
proof -
  have "collect_pages d u aid l 0 = Inr (drop (nat 0) (joined_history d aid))"
    using assms(2,3,4) by (rule collect_pages_drop) simp
  moreover have "list_all (\<lambda>r. e_accountType r = Some (accountType a)) (joined_history d aid)"
    by (simp add: joined_history_eq[OF assms(1,2)] list_all_iff)
  ultimately show ?thesis
    using history_sorted[of d aid] history_complete[OF assms(1,2)] by simp
qed

theorem pagination_reproduces_history_witness:
  "account_ids_unique example_history_db
   \<and> collect_pages example_history_db 7 1 2 0 = Inr (joined_history example_history_db 1)
   \<and> map tx_id (joined_history example_history_db 1) = [4, 1, 2]
   \<and> map createdAt (joined_history example_history_db 1) = [2000, 1000, 1000]"
proof -
  have "map createdAt (joined_history example_history_db 1) = [2000, 1000, 1000]"
    by (simp add: joined_history_def innerJoin_accounts_def example_history_db_def
        orderBy_createdAt_desc_def enrich_def transaction.extend_def
        enriched_transaction.fields_def)
  with pagination_reproduces_history[OF example_history_unique example_history_account,
      of 2]
    example_history_unique example_history_order
  show ?thesis by simp
qed

text \<open>
  Claim C9. In a store whose account ids are unique, for every caller and every input
  the schema admits, the joined query returns what the per-row lookup returns, cut down
  to the page: the same error, or the same rows in the same order.
\<close>

theorem join_equals_per_row_lookup:
  assumes "account_ids_unique d" and "getTransactions_input_ok input"
  shows "getTransactions d u input =
         map_sum id
           (page_of (case limit input of None \<Rightarrow> 50 | Some l \<Rightarrow> l)
                    (case offset input of None \<Rightarrow> 0 | Some off \<Rightarrow> off))
           (getTransactions_per_row d u (q_accountId input))"
  using assms by (rule join_eq_per_row)

theorem join_equals_per_row_lookup_witness:
  "account_ids_unique example_history_db
   \<and> getTransactions_input_ok \<lparr>q_accountId = 1, limit = Some 2, offset = Some 1\<rparr>
   \<and> getTransactions example_history_db 7 \<lparr>q_accountId = 1, limit = Some 2, offset = Some 1\<rparr> =
     map_sum id (page_of 2 1) (getTransactions_per_row example_history_db 7 1)
   \<and> map_sum id (map tx_id)
       (getTransactions example_history_db 7 \<lparr>q_accountId = 1, limit = Some 2, offset = Some 1\<rparr>) =
     Inr [1, 2]"
proof -
  have ok: "getTransactions_input_ok \<lparr>q_accountId = 1, limit = Some 2, offset = Some 1\<rparr>"
    by (simp add: getTransactions_input_ok_def)
  have ids: "map_sum id (map tx_id)
       (getTransactions example_history_db 7 \<lparr>q_accountId = 1, limit = Some 2, offset = Some 1\<rparr>) =
     Inr [1, 2]"
    using example_history_account example_history_order
    by (simp add: getTransactions_def ok take_map drop_map flip: take_map drop_map)
  from join_equals_per_row_lookup[OF example_history_unique ok, of 7] example_history_unique ok ids
  show ?thesis by simp
qed


end
